theory Spec2Isabelle
  imports Complex_Main "HOL-Library.Word"
begin

unbundle bit_operations_syntax

section \<open>The input engine of \<^verbatim>\<open>input_common/input_engine.cpp\<close>\<close>

text \<open>
  The engine keeps, for every known pad, the last value of each of its inputs, a list of
  pollers to tell when an input changes, and one mapping callback that is told, while the
  engine is configuring, which input the user moved.

  Conventions of the model.
  \<^item> A \<^verbatim>\<open>std::unordered_map\<close> is an association list whose order is the order of
    iteration; \<^verbatim>\<open>find\<close> is \<open>map_of\<close> and every operation acts on the first entry of a
    key, so that a list with unique keys (the only lists the operations build) behaves as
    the container does.
  \<^item> \<^verbatim>\<open>int\<close> is \<open>int\<close>. The only arithmetic on it is the increment of
    \<^verbatim>\<open>last_callback_key\<close>, whose wrap-around is written out in \<open>increment\<close>.
  \<^item> \<^verbatim>\<open>f32\<close> is the 32 bits of an IEEE 754 binary32 number. The subtraction and the
    comparisons of the source are those of binary32: the difference is rounded to the
    nearest number of the format, ties to even, and a comparison with NaN is false.
  \<^item> A \<^verbatim>\<open>std::function\<close> member is the boolean telling whether it holds a target;
    calling it is an event of the trace the operation returns. The target is opaque: it
    is assumed not to call back into the engine.
  \<^item> The two mutexes are not modelled: every operation runs alone.
\<close>

subsection \<open>The numbers of \<^verbatim>\<open>f32\<close>\<close>

text \<open>
  Modelled from the spec: the alias \<^verbatim>\<open>f32\<close> is declared in a header that is not
  among the sources; the spec calls an axis a "normalized float magnitude", and the source
  compares with literals of type \<^verbatim>\<open>float\<close> (\<^verbatim>\<open>0.5f\<close>), so \<^verbatim>\<open>f32\<close> is
  \<^verbatim>\<open>float\<close>, the binary32 format. A value is kept as its 32 bits: one bit of sign,
  eight of exponent, twenty-three of fraction. The word 0 is \<^verbatim>\<open>0.0f\<close>.
\<close>

type_synonym f32 = "32 word"

text \<open>
  What the bits denote: no number, an infinity with its sign, or a sign and a magnitude,
  the magnitude counted in units of \<open>1 / 2 ^ 149\<close>, the smallest positive number of the
  format (so that \<^verbatim>\<open>0.5f\<close> has magnitude \<open>2 ^ 148\<close>).
\<close>

datatype binary32 = NaN | Infinity bool | Finite bool nat

definition f32_value :: "f32 \<Rightarrow> binary32" where
  "f32_value w =
     (let negative = bit w 31;
          exponent = unat (take_bit 8 (drop_bit 23 w));
          fraction = unat (take_bit 23 w)
      in if exponent = 255 then (if fraction = 0 then Infinity negative else NaN)
         else if exponent = 0 then Finite negative fraction
         else Finite negative ((2 ^ 23 + fraction) * 2 ^ (exponent - 1)))"

text \<open>The number of binary digits of a magnitude.\<close>

fun bit_length :: "nat \<Rightarrow> nat" where
  "bit_length n = (if n = 0 then 0 else Suc (bit_length (n div 2)))"

declare bit_length.simps [simp del]

text \<open>
  Rounding to a multiple of \<open>2 ^ shift\<close>: to the nearest one, and to the one whose
  quotient is even when two are equally near.
\<close>

definition round_even :: "nat \<Rightarrow> nat \<Rightarrow> nat" where
  "round_even m shift =
     (let q = m div 2 ^ shift; r = m mod 2 ^ shift
      in (if 2 ^ shift < 2 * r \<or> (2 * r = 2 ^ shift \<and> odd q) then q + 1 else q) * 2 ^ shift)"

text \<open>
  The binary32 value nearest to an exact magnitude: 24 significant digits are kept, and a
  magnitude that rounds to \<open>2 ^ 128\<close> (\<open>2 ^ 277\<close> units) or more becomes an infinity.
\<close>

definition f32_round :: "bool \<Rightarrow> nat \<Rightarrow> binary32" where
  "f32_round negative m =
     (let rounded = round_even m (bit_length m - 24)
      in if 2 ^ 277 \<le> rounded then Infinity negative else Finite negative rounded)"

fun signed_units :: "bool \<Rightarrow> nat \<Rightarrow> int" where
  "signed_units negative m = (if negative then - int m else int m)"

text \<open>
  The operators \<^verbatim>\<open>-\<close> and \<^verbatim>\<open><\<close> of \<^verbatim>\<open>float\<close> and \<^verbatim>\<open>std::abs\<close>. An exact
  difference of zero is \<^verbatim>\<open>+0\<close>, but \<^verbatim>\<open>-0\<close> when \<^verbatim>\<open>-0\<close> and \<^verbatim>\<open>+0\<close> are subtracted.
\<close>

definition f32_sub :: "binary32 \<Rightarrow> binary32 \<Rightarrow> binary32" where
  "f32_sub a b =
     (case (a, b) of
        (NaN, _) \<Rightarrow> NaN
      | (_, NaN) \<Rightarrow> NaN
      | (Infinity sa, Infinity sb) \<Rightarrow> (if sa = sb then NaN else Infinity sa)
      | (Infinity sa, Finite sb mb) \<Rightarrow> Infinity sa
      | (Finite sa ma, Infinity sb) \<Rightarrow> Infinity (\<not> sb)
      | (Finite sa ma, Finite sb mb) \<Rightarrow>
          (let d = signed_units sa ma - signed_units sb mb
           in if d = 0 then Finite (sa \<and> \<not> sb) 0
              else f32_round (d < 0) (nat \<bar>d\<bar>)))"

fun f32_abs :: "binary32 \<Rightarrow> binary32" where
  "f32_abs NaN = NaN"
| "f32_abs (Infinity negative) = Infinity False"
| "f32_abs (Finite negative m) = Finite False m"

fun f32_less :: "binary32 \<Rightarrow> binary32 \<Rightarrow> bool" where
  "f32_less NaN b = False"
| "f32_less (Infinity sa) NaN = False"
| "f32_less (Finite sa ma) NaN = False"
| "f32_less (Infinity sa) (Infinity sb) = (sa \<and> \<not> sb)"
| "f32_less (Infinity sa) (Finite sb mb) = sa"
| "f32_less (Finite sa ma) (Infinity sb) = (\<not> sb)"
| "f32_less (Finite sa ma) (Finite sb mb) = (signed_units sa ma < signed_units sb mb)"

text \<open>
  The literals of the source: \<^verbatim>\<open>0.5f\<close> and \<^verbatim>\<open>1.5f\<close> are exact, \<^verbatim>\<open>0.6f\<close> is the
  binary32 number nearest to 0.6, which is \<open>10066330 / 2 ^ 24\<close>.
\<close>

definition f32_0_5 :: f32 where "f32_0_5 = 0x3f000000"
definition f32_0_6 :: f32 where "f32_0_6 = 0x3f19999a"
definition f32_1_5 :: f32 where "f32_1_5 = 0x3fc00000"

subsection \<open>Data\<close>

text \<open>
  Modelled from the spec: the header that declares the types of the engine is not among
  the sources. The records hold the members that the source file reads and writes, under
  their names there; the kinds of input are those the source file names. A device identity
  is a GUID, a port index and a pad index (two \<^verbatim>\<open>std::size_t\<close>), compared member by
  member; a motion sample is three gyroscope and three accelerometer components.
\<close>

type_synonym u8 = "8 word"

record PadIdentifier =
  guid :: "128 word"
  port :: "64 word"
  pad :: "64 word"

datatype EngineInputType = Analog | Battery | Button | HatButton | Motion

text \<open>
  Modelled from the spec: the declaration of \<^verbatim>\<open>BatteryLevel\<close> is not among the
  sources, which name only \<^verbatim>\<open>Charging\<close>; the other levels stand for the "enumerated
  charge level" of the spec, \<open>BatteryNone\<close> being the zero value a new controller holds.
\<close>

datatype BatteryLevel = BatteryNone | Empty | Critical | Low | Medium | Full | Charging

record BasicMotion =
  gyro_x :: f32
  gyro_y :: f32
  gyro_z :: f32
  accel_x :: f32
  accel_y :: f32
  accel_z :: f32

record ControllerData =
  buttons :: "(int \<times> bool) list"
  hat_buttons :: "(int \<times> u8) list"
  axes :: "(int \<times> f32) list"
  motions :: "(int \<times> BasicMotion) list"
  battery :: BatteryLevel

record UpdateCallback =
  on_change :: bool

record InputIdentifier =
  identifier' :: PadIdentifier
  type :: EngineInputType
  index :: int
  callback :: UpdateCallback

record MappingCallback =
  on_data :: bool

text \<open>
  The fields \<^verbatim>\<open>pad\<close>, \<^verbatim>\<open>type\<close> and \<^verbatim>\<open>index\<close> of \<^verbatim>\<open>MappingData\<close> are
  \<open>md_pad\<close>, \<open>md_type\<close> and \<open>md_index\<close> here, the plain names being taken by the records
  above; the field \<^verbatim>\<open>identifier\<close> of \<^verbatim>\<open>InputIdentifier\<close> is \<open>identifier'\<close>, and the
  parameters \<^verbatim>\<open>type\<close> and \<^verbatim>\<open>index\<close> of the functions are \<open>ty\<close> and \<open>idx\<close>.
\<close>

record MappingData =
  engine :: string
  md_pad :: PadIdentifier
  md_type :: EngineInputType
  md_index :: int
  button_value :: bool
  hat_name :: string
  axis_value :: f32
  motion_value :: BasicMotion

text \<open>
  \<open>GetHatButtonName\<close> is a virtual member function that each backend overrides; the
  engine carries the one of its backend.
\<close>

record InputEngine =
  controller_list :: "(PadIdentifier \<times> ControllerData) list"
  callback_list :: "(int \<times> InputIdentifier) list"
  mapping_callback :: MappingCallback
  configuring :: bool
  last_callback_key :: int
  input_engine :: string
  GetHatButtonName :: "u8 \<Rightarrow> string"

text \<open>
  What a call can end with instead of returning: the \<^verbatim>\<open>std::out_of_range\<close> that
  \<^verbatim>\<open>unordered_map::at\<close> throws, and a loop that never ends.
\<close>

datatype fault = OutOfRange | NoReturn

datatype log_message =
    InvalidIdentifier PadIdentifier
  | InvalidButton int
  | InvalidHatButton int
  | InvalidAxis int
  | NonExistentCallback int

text \<open>
  What a call does besides changing the engine, in order: a line of \<^verbatim>\<open>LOG_ERROR\<close>, a
  call of the \<^verbatim>\<open>on_change\<close> of the poller stored under a key, a call of the
  \<^verbatim>\<open>on_data\<close> of the mapping callback.
\<close>

datatype event = LogError log_message | OnChange int | OnData MappingData

definition zero_motion :: BasicMotion where
  "zero_motion = \<lparr>gyro_x = 0, gyro_y = 0, gyro_z = 0, accel_x = 0, accel_y = 0, accel_z = 0\<rparr>"

definition zero_pad :: PadIdentifier where
  "zero_pad = \<lparr>guid = 0, port = 0, pad = 0\<rparr>"

definition new_controller :: ControllerData where
  "new_controller = \<lparr>buttons = [], hat_buttons = [], axes = [], motions = [], battery = BatteryNone\<rparr>"

text \<open>
  A \<^verbatim>\<open>MappingData\<close> whose members hold their defaults. Every event sets its
  type, so the default of \<open>md_type\<close>, written \<open>Analog\<close> here, is never seen.
\<close>

definition new_mapping_data :: MappingData where
  "new_mapping_data =
     \<lparr>engine = [], md_pad = zero_pad, md_type = Analog, md_index = 0, button_value = False,
      hat_name = [], axis_value = 0, motion_value = zero_motion\<rparr>"

subsection \<open>The operations of \<^verbatim>\<open>std::unordered_map\<close>\<close>

definition at_key :: "('k \<times> 'v) list \<Rightarrow> 'k \<Rightarrow> fault + 'v" where
  "at_key m k = (case map_of m k of None \<Rightarrow> Inl OutOfRange | Some v \<Rightarrow> Inr v)"

fun try_emplace :: "'k \<Rightarrow> 'v \<Rightarrow> ('k \<times> 'v) list \<Rightarrow> ('k \<times> 'v) list" where
  "try_emplace k v [] = [(k, v)]"
| "try_emplace k v ((k', v') # m) =
     (if k' = k then (k', v') # m else (k', v') # try_emplace k v m)"

fun insert_or_assign :: "'k \<Rightarrow> 'v \<Rightarrow> ('k \<times> 'v) list \<Rightarrow> ('k \<times> 'v) list" where
  "insert_or_assign k v [] = [(k, v)]"
| "insert_or_assign k v ((k', v') # m) =
     (if k' = k then (k', v) # m else (k', v') # insert_or_assign k v m)"

fun erase :: "'k \<Rightarrow> ('k \<times> 'v) list \<Rightarrow> ('k \<times> 'v) list" where
  "erase k [] = []"
| "erase k ((k', v') # m) = (if k' = k then m else (k', v') # erase k m)"

text \<open>
  The source changes a controller through the reference that \<^verbatim>\<open>at\<close> returns;
  \<open>with_controller\<close> writes the changed controller back in its place.
\<close>

definition with_controller ::
  "PadIdentifier \<Rightarrow> (ControllerData \<Rightarrow> ControllerData) \<Rightarrow> InputEngine \<Rightarrow> fault + InputEngine" where
  "with_controller identifier f e =
     (case at_key (controller_list e) identifier of
        Inl err \<Rightarrow> Inl err
      | Inr controller \<Rightarrow>
          Inr (e\<lparr>controller_list := insert_or_assign identifier (f controller) (controller_list e)\<rparr>))"

subsection \<open>Registration\<close>

definition PreSetController :: "PadIdentifier \<Rightarrow> InputEngine \<Rightarrow> InputEngine" where
  "PreSetController identifier e =
     e\<lparr>controller_list := try_emplace identifier new_controller (controller_list e)\<rparr>"

definition PreSetButton :: "PadIdentifier \<Rightarrow> int \<Rightarrow> InputEngine \<Rightarrow> fault + InputEngine" where
  "PreSetButton identifier button e =
     with_controller identifier
       (\<lambda>controller. controller\<lparr>buttons := try_emplace button False (buttons controller)\<rparr>) e"

definition PreSetHatButton :: "PadIdentifier \<Rightarrow> int \<Rightarrow> InputEngine \<Rightarrow> fault + InputEngine" where
  "PreSetHatButton identifier button e =
     with_controller identifier
       (\<lambda>controller. controller\<lparr>hat_buttons := try_emplace button 0 (hat_buttons controller)\<rparr>) e"

definition PreSetAxis :: "PadIdentifier \<Rightarrow> int \<Rightarrow> InputEngine \<Rightarrow> fault + InputEngine" where
  "PreSetAxis identifier axis e =
     with_controller identifier
       (\<lambda>controller. controller\<lparr>axes := try_emplace axis 0 (axes controller)\<rparr>) e"

definition PreSetMotion :: "PadIdentifier \<Rightarrow> int \<Rightarrow> InputEngine \<Rightarrow> fault + InputEngine" where
  "PreSetMotion identifier motion e =
     with_controller identifier
       (\<lambda>controller. controller\<lparr>motions := try_emplace motion zero_motion (motions controller)\<rparr>) e"

subsection \<open>Queries\<close>

definition GetButton :: "PadIdentifier \<Rightarrow> int \<Rightarrow> InputEngine \<Rightarrow> bool \<times> event list" where
  "GetButton identifier button e =
     (case map_of (controller_list e) identifier of
        None \<Rightarrow> (False, [LogError (InvalidIdentifier identifier)])
      | Some controller \<Rightarrow>
          (case map_of (buttons controller) button of
             None \<Rightarrow> (False, [LogError (InvalidButton button)])
           | Some v \<Rightarrow> (v, [])))"

definition GetHatButton :: "PadIdentifier \<Rightarrow> int \<Rightarrow> u8 \<Rightarrow> InputEngine \<Rightarrow> bool \<times> event list" where
  "GetHatButton identifier button direction e =
     (case map_of (controller_list e) identifier of
        None \<Rightarrow> (False, [LogError (InvalidIdentifier identifier)])
      | Some controller \<Rightarrow>
          (case map_of (hat_buttons controller) button of
             None \<Rightarrow> (False, [LogError (InvalidHatButton button)])
           | Some v \<Rightarrow> (v AND direction \<noteq> 0, [])))"

definition GetAxis :: "PadIdentifier \<Rightarrow> int \<Rightarrow> InputEngine \<Rightarrow> f32 \<times> event list" where
  "GetAxis identifier axis e =
     (case map_of (controller_list e) identifier of
        None \<Rightarrow> (0, [LogError (InvalidIdentifier identifier)])
      | Some controller \<Rightarrow>
          (case map_of (axes controller) axis of
             None \<Rightarrow> (0, [LogError (InvalidAxis axis)])
           | Some v \<Rightarrow> (v, [])))"

definition GetBattery :: "PadIdentifier \<Rightarrow> InputEngine \<Rightarrow> BatteryLevel \<times> event list" where
  "GetBattery identifier e =
     (case map_of (controller_list e) identifier of
        None \<Rightarrow> (Charging, [LogError (InvalidIdentifier identifier)])
      | Some controller \<Rightarrow> (battery controller, []))"

definition GetMotion ::
  "PadIdentifier \<Rightarrow> int \<Rightarrow> InputEngine \<Rightarrow> fault + BasicMotion \<times> event list" where
  "GetMotion identifier motion e =
     (case map_of (controller_list e) identifier of
        None \<Rightarrow> Inr (zero_motion, [LogError (InvalidIdentifier identifier)])
      | Some controller \<Rightarrow>
          (case at_key (motions controller) motion of
             Inl err \<Rightarrow> Inl err
           | Inr v \<Rightarrow> Inr (v, [])))"

definition GetEngineName :: "InputEngine \<Rightarrow> string" where
  "GetEngineName e = input_engine e"

subsection \<open>Notification and mapping detection\<close>

definition IsInputIdentifierEqual ::
  "InputIdentifier \<Rightarrow> PadIdentifier \<Rightarrow> EngineInputType \<Rightarrow> int \<Rightarrow> bool" where
  "IsInputIdentifierEqual input_identifier identifier ty idx =
     (if type input_identifier \<noteq> ty then False
      else if index input_identifier \<noteq> idx then False
      else if identifier' input_identifier \<noteq> identifier then False
      else True)"

text \<open>
  The loop over \<^verbatim>\<open>callback_list\<close> with which each of the five \<^verbatim>\<open>TriggerOn...Change\<close>
  begins; they differ in the input type they pass only.
\<close>

fun notify_pollers ::
  "(int \<times> InputIdentifier) list \<Rightarrow> PadIdentifier \<Rightarrow> EngineInputType \<Rightarrow> int \<Rightarrow> event list" where
  "notify_pollers [] identifier ty idx = []"
| "notify_pollers ((key, poller) # rest) identifier ty idx =
     (if \<not> IsInputIdentifierEqual poller identifier ty idx
      then notify_pollers rest identifier ty idx
      else if on_change (callback poller)
      then OnChange key # notify_pollers rest identifier ty idx
      else notify_pollers rest identifier ty idx)"

definition TriggerOnButtonChange ::
  "PadIdentifier \<Rightarrow> int \<Rightarrow> bool \<Rightarrow> InputEngine \<Rightarrow> fault + InputEngine \<times> event list" where
  "TriggerOnButtonChange identifier button value e =
     (let notified = notify_pollers (callback_list e) identifier Button button in
      if \<not> configuring e \<or> \<not> on_data (mapping_callback e) then Inr (e, notified)
      else
        (case PreSetButton identifier button e of
           Inl err \<Rightarrow> Inl err
         | Inr e1 \<Rightarrow>
             (let (stored, logged) = GetButton identifier button e1 in
              if value = stored then Inr (e1, notified @ logged)
              else Inr (e1, notified @ logged @
                     [OnData (new_mapping_data\<lparr>engine := GetEngineName e1, md_pad := identifier,
                        md_type := Button, md_index := button, button_value := value\<rparr>)]))))"

text \<open>One turn of the loop of \<^verbatim>\<open>TriggerOnHatButtonChange\<close>, \<open>idx\<close> being its \<^verbatim>\<open>index\<close>.\<close>

definition hat_direction ::
  "64 word \<Rightarrow> PadIdentifier \<Rightarrow> int \<Rightarrow> u8 \<Rightarrow> InputEngine \<Rightarrow> event list" where
  "hat_direction idx identifier button value e =
     (let button_value = ((ucast value :: 64 word) AND idx \<noteq> 0);
          (stored, logged) = GetHatButton identifier button (ucast idx) e
      in if button_value = stored then logged
         else logged @
           [OnData (new_mapping_data\<lparr>engine := GetEngineName e, md_pad := identifier,
              md_type := HatButton, md_index := button,
              hat_name := GetHatButtonName e (ucast idx)\<rparr>)])"

text \<open>
  The loop \<^verbatim>\<open>for (std::size_t index = 1; index < 0xff; index <<= 1)\<close> from the value
  \<open>idx\<close> of \<^verbatim>\<open>index\<close> on. From 0 it would never end, so it is a partial function.
\<close>

partial_function (option) hat_loop ::
  "64 word \<Rightarrow> PadIdentifier \<Rightarrow> int \<Rightarrow> u8 \<Rightarrow> InputEngine \<Rightarrow> event list option" where
  "hat_loop idx identifier button value e =
     (if idx < 0xff
      then Option.bind (hat_loop (push_bit 1 idx) identifier button value e)
             (\<lambda>later. Some (hat_direction idx identifier button value e @ later))
      else Some [])"

definition TriggerOnHatButtonChange ::
  "PadIdentifier \<Rightarrow> int \<Rightarrow> u8 \<Rightarrow> InputEngine \<Rightarrow> fault + InputEngine \<times> event list" where
  "TriggerOnHatButtonChange identifier button value e =
     (let notified = notify_pollers (callback_list e) identifier HatButton button in
      if \<not> configuring e \<or> \<not> on_data (mapping_callback e) then Inr (e, notified)
      else
        (case hat_loop 1 identifier button value e of
           None \<Rightarrow> Inl NoReturn
         | Some detected \<Rightarrow> Inr (e, notified @ detected)))"

definition TriggerOnAxisChange ::
  "PadIdentifier \<Rightarrow> int \<Rightarrow> f32 \<Rightarrow> InputEngine \<Rightarrow> fault + InputEngine \<times> event list" where
  "TriggerOnAxisChange identifier axis value e =
     (let notified = notify_pollers (callback_list e) identifier Analog axis in
      if \<not> configuring e \<or> \<not> on_data (mapping_callback e) then Inr (e, notified)
      else
        (let (stored, logged) = GetAxis identifier axis e in
         if f32_less (f32_abs (f32_sub (f32_value value) (f32_value stored))) (f32_value f32_0_5)
         then Inr (e, notified @ logged)
         else Inr (e, notified @ logged @
                [OnData (new_mapping_data\<lparr>engine := GetEngineName e, md_pad := identifier,
                   md_type := Analog, md_index := axis, axis_value := value\<rparr>)])))"

definition TriggerOnBatteryChange ::
  "PadIdentifier \<Rightarrow> BatteryLevel \<Rightarrow> InputEngine \<Rightarrow> fault + InputEngine \<times> event list" where
  "TriggerOnBatteryChange identifier value e =
     Inr (e, notify_pollers (callback_list e) identifier Battery 0)"

text \<open>\<^verbatim>\<open>std::abs(x) > 1.5f\<close> is \<^verbatim>\<open>1.5f < std::abs(x)\<close>.\<close>

definition exceeds :: "f32 \<Rightarrow> f32 \<Rightarrow> bool" where
  "exceeds x bound = f32_less (f32_value bound) (f32_abs (f32_value x))"

definition TriggerOnMotionChange ::
  "PadIdentifier \<Rightarrow> int \<Rightarrow> BasicMotion \<Rightarrow> InputEngine \<Rightarrow> fault + InputEngine \<times> event list" where
  "TriggerOnMotionChange identifier motion value e =
     (let notified = notify_pollers (callback_list e) identifier Motion motion in
      if \<not> configuring e \<or> \<not> on_data (mapping_callback e) then Inr (e, notified)
      else
        (let is_active =
               ((exceeds (accel_x value) f32_1_5 \<or> exceeds (accel_y value) f32_1_5
                 \<or> exceeds (accel_z value) f32_1_5)
                \<or> (exceeds (gyro_x value) f32_0_6 \<or> exceeds (gyro_y value) f32_0_6
                    \<or> exceeds (gyro_z value) f32_0_6))
         in if \<not> is_active then Inr (e, notified)
            else Inr (e, notified @
                   [OnData (new_mapping_data\<lparr>engine := GetEngineName e, md_pad := identifier,
                      md_type := Motion, md_index := motion, motion_value := value\<rparr>)])))"

subsection \<open>Mutation\<close>

text \<open>
  Each mutator looks the controller up with \<^verbatim>\<open>at\<close>, which throws before anything is
  written or any poller is told, writes unless the engine is configuring, and triggers.
\<close>

definition SetButton ::
  "PadIdentifier \<Rightarrow> int \<Rightarrow> bool \<Rightarrow> InputEngine \<Rightarrow> fault + InputEngine \<times> event list" where
  "SetButton identifier button value e =
     (case with_controller identifier
             (\<lambda>controller. if \<not> configuring e
                then controller\<lparr>buttons := insert_or_assign button value (buttons controller)\<rparr>
                else controller) e of
        Inl err \<Rightarrow> Inl err
      | Inr e1 \<Rightarrow> TriggerOnButtonChange identifier button value e1)"

definition SetHatButton ::
  "PadIdentifier \<Rightarrow> int \<Rightarrow> u8 \<Rightarrow> InputEngine \<Rightarrow> fault + InputEngine \<times> event list" where
  "SetHatButton identifier button value e =
     (case with_controller identifier
             (\<lambda>controller. if \<not> configuring e
                then controller\<lparr>hat_buttons := insert_or_assign button value (hat_buttons controller)\<rparr>
                else controller) e of
        Inl err \<Rightarrow> Inl err
      | Inr e1 \<Rightarrow> TriggerOnHatButtonChange identifier button value e1)"

definition SetAxis ::
  "PadIdentifier \<Rightarrow> int \<Rightarrow> f32 \<Rightarrow> InputEngine \<Rightarrow> fault + InputEngine \<times> event list" where
  "SetAxis identifier axis value e =
     (case with_controller identifier
             (\<lambda>controller. if \<not> configuring e
                then controller\<lparr>axes := insert_or_assign axis value (axes controller)\<rparr>
                else controller) e of
        Inl err \<Rightarrow> Inl err
      | Inr e1 \<Rightarrow> TriggerOnAxisChange identifier axis value e1)"

definition SetBattery ::
  "PadIdentifier \<Rightarrow> BatteryLevel \<Rightarrow> InputEngine \<Rightarrow> fault + InputEngine \<times> event list" where
  "SetBattery identifier value e =
     (case with_controller identifier
             (\<lambda>controller. if \<not> configuring e
                then controller\<lparr>battery := value\<rparr>
                else controller) e of
        Inl err \<Rightarrow> Inl err
      | Inr e1 \<Rightarrow> TriggerOnBatteryChange identifier value e1)"

definition SetMotion ::
  "PadIdentifier \<Rightarrow> int \<Rightarrow> BasicMotion \<Rightarrow> InputEngine \<Rightarrow> fault + InputEngine \<times> event list" where
  "SetMotion identifier motion value e =
     (case with_controller identifier
             (\<lambda>controller. if \<not> configuring e
                then controller\<lparr>motions := insert_or_assign motion value (motions controller)\<rparr>
                else controller) e of
        Inl err \<Rightarrow> Inl err
      | Inr e1 \<Rightarrow> TriggerOnMotionChange identifier motion value e1)"

subsection \<open>Reset\<close>

definition and_then ::
  "(fault + InputEngine \<times> event list) \<Rightarrow> (InputEngine \<Rightarrow> fault + InputEngine \<times> event list)
     \<Rightarrow> fault + InputEngine \<times> event list" where
  "and_then first next =
     (case first of
        Inl err \<Rightarrow> Inl err
      | Inr (e1, events1) \<Rightarrow>
          (case next e1 of
             Inl err \<Rightarrow> Inl err
           | Inr (e2, events2) \<Rightarrow> Inr (e2, events1 @ events2)))"

fun for_each ::
  "('a \<Rightarrow> InputEngine \<Rightarrow> fault + InputEngine \<times> event list) \<Rightarrow> 'a list \<Rightarrow> InputEngine
     \<Rightarrow> fault + InputEngine \<times> event list" where
  "for_each body [] e = Inr (e, [])"
| "for_each body (x # xs) e = and_then (body x e) (for_each body xs)"

text \<open>
  The loops run over the entries the maps hold when the reset starts. The calls in their
  bodies assign to entries that exist and add or remove none, so the iterators of the
  source walk the same keys.
\<close>

definition ResetButtonState :: "InputEngine \<Rightarrow> fault + InputEngine \<times> event list" where
  "ResetButtonState e =
     for_each
       (\<lambda>controller e1.
          and_then
            (for_each (\<lambda>button. SetButton (fst controller) (fst button) False)
               (buttons (snd controller)) e1)
            (for_each (\<lambda>button. SetHatButton (fst controller) (fst button) 0)
               (hat_buttons (snd controller))))
       (controller_list e) e"

definition ResetAnalogState :: "InputEngine \<Rightarrow> fault + InputEngine \<times> event list" where
  "ResetAnalogState e =
     for_each
       (\<lambda>controller.
          for_each (\<lambda>axis. SetAxis (fst controller) (fst axis) 0) (axes (snd controller)))
       (controller_list e) e"

subsection \<open>Mode and registry\<close>

definition BeginConfiguration :: "InputEngine \<Rightarrow> InputEngine" where
  "BeginConfiguration e = e\<lparr>configuring := True\<rparr>"

definition EndConfiguration :: "InputEngine \<Rightarrow> InputEngine" where
  "EndConfiguration e = e\<lparr>configuring := False\<rparr>"

definition INT_MAX :: int where
  "INT_MAX = 2147483647"

definition INT_MIN :: int where
  "INT_MIN = - 2147483648"

text \<open>
  The value of an \<^verbatim>\<open>int\<close> after \<^verbatim>\<open>++\<close>. The language leaves the increment of the
  largest \<^verbatim>\<open>int\<close> undefined; the machine instruction it is compiled to wraps around
  to the smallest one, and so does the model.
\<close>

definition increment :: "int \<Rightarrow> int" where
  "increment n = (if n = INT_MAX then INT_MIN else n + 1)"

text \<open>
  \<^verbatim>\<open>return last_callback_key++\<close>: the key returned is the one the poller is stored
  under, whatever the counter holds.
\<close>

definition SetCallback :: "InputIdentifier \<Rightarrow> InputEngine \<Rightarrow> int \<times> InputEngine" where
  "SetCallback input_identifier e =
     (last_callback_key e,
      e\<lparr>callback_list :=
           insert_or_assign (last_callback_key e) input_identifier (callback_list e),
        last_callback_key := increment (last_callback_key e)\<rparr>)"

definition SetMappingCallback :: "MappingCallback \<Rightarrow> InputEngine \<Rightarrow> InputEngine" where
  "SetMappingCallback cb e = e\<lparr>mapping_callback := cb\<rparr>"

definition DeleteCallback :: "int \<Rightarrow> InputEngine \<Rightarrow> InputEngine \<times> event list" where
  "DeleteCallback key e =
     (case map_of (callback_list e) key of
        None \<Rightarrow> (e, [LogError (NonExistentCallback key)])
      | Some found \<Rightarrow> (e\<lparr>callback_list := erase key (callback_list e)\<rparr>, []))"

text \<open>
  Modelled from the spec: the constructor and the initialisers of the members are in the
  header, which is not among the sources. The spec starts the engine in normal mode, with
  no device, no subscription, no mapping observer, and keys counted from 0.
\<close>

definition new_engine :: "string \<Rightarrow> (u8 \<Rightarrow> string) \<Rightarrow> InputEngine" where
  "new_engine name hat_names =
     \<lparr>controller_list = [], callback_list = [], mapping_callback = \<lparr>on_data = False\<rparr>,
      configuring = False, last_callback_key = 0, input_engine = name,
      GetHatButtonName = hat_names\<rparr>"

subsection \<open>Reading a trace\<close>

fun on_change_keys :: "event list \<Rightarrow> int list" where
  "on_change_keys [] = []"
| "on_change_keys (OnChange key # events) = key # on_change_keys events"
| "on_change_keys (other # events) = on_change_keys events"

fun on_data_events :: "event list \<Rightarrow> MappingData list" where
  "on_data_events [] = []"
| "on_data_events (OnData d # events) = d # on_data_events events"
| "on_data_events (other # events) = on_data_events events"

subsection \<open>Runs of the engine\<close>

text \<open>
  The calls that can change an engine. A call that ends with a fault leaves the engine
  as it found it: \<^verbatim>\<open>at\<close> throws before the first write.
\<close>

datatype call =
    CallPreSetController PadIdentifier
  | CallPreSetButton PadIdentifier int
  | CallPreSetHatButton PadIdentifier int
  | CallPreSetAxis PadIdentifier int
  | CallPreSetMotion PadIdentifier int
  | CallSetButton PadIdentifier int bool
  | CallSetHatButton PadIdentifier int u8
  | CallSetAxis PadIdentifier int f32
  | CallSetBattery PadIdentifier BatteryLevel
  | CallSetMotion PadIdentifier int BasicMotion
  | CallResetButtonState
  | CallResetAnalogState
  | CallBeginConfiguration
  | CallEndConfiguration
  | CallSetCallback InputIdentifier
  | CallSetMappingCallback MappingCallback
  | CallDeleteCallback int

definition registered :: "InputEngine \<Rightarrow> fault + InputEngine \<Rightarrow> InputEngine" where
  "registered e r = (case r of Inl err \<Rightarrow> e | Inr e1 \<Rightarrow> e1)"

definition mutated :: "InputEngine \<Rightarrow> fault + InputEngine \<times> event list \<Rightarrow> InputEngine" where
  "mutated e r = (case r of Inl err \<Rightarrow> e | Inr (e1, events) \<Rightarrow> e1)"

text \<open>The engine after a call, and the key the call returned, if it is a subscription.\<close>

fun perform :: "call \<Rightarrow> InputEngine \<Rightarrow> InputEngine \<times> int option" where
  "perform (CallPreSetController identifier) e = (PreSetController identifier e, None)"
| "perform (CallPreSetButton identifier button) e =
     (registered e (PreSetButton identifier button e), None)"
| "perform (CallPreSetHatButton identifier button) e =
     (registered e (PreSetHatButton identifier button e), None)"
| "perform (CallPreSetAxis identifier axis) e =
     (registered e (PreSetAxis identifier axis e), None)"
| "perform (CallPreSetMotion identifier motion) e =
     (registered e (PreSetMotion identifier motion e), None)"
| "perform (CallSetButton identifier button value) e =
     (mutated e (SetButton identifier button value e), None)"
| "perform (CallSetHatButton identifier button value) e =
     (mutated e (SetHatButton identifier button value e), None)"
| "perform (CallSetAxis identifier axis value) e =
     (mutated e (SetAxis identifier axis value e), None)"
| "perform (CallSetBattery identifier value) e =
     (mutated e (SetBattery identifier value e), None)"
| "perform (CallSetMotion identifier motion value) e =
     (mutated e (SetMotion identifier motion value e), None)"
| "perform CallResetButtonState e = (mutated e (ResetButtonState e), None)"
| "perform CallResetAnalogState e = (mutated e (ResetAnalogState e), None)"
| "perform CallBeginConfiguration e = (BeginConfiguration e, None)"
| "perform CallEndConfiguration e = (EndConfiguration e, None)"
| "perform (CallSetCallback input_identifier) e =
     (case SetCallback input_identifier e of (key, e1) \<Rightarrow> (e1, Some key))"
| "perform (CallSetMappingCallback cb) e = (SetMappingCallback cb e, None)"
| "perform (CallDeleteCallback key) e = (fst (DeleteCallback key e), None)"

fun run :: "call list \<Rightarrow> InputEngine \<Rightarrow> InputEngine" where
  "run [] e = e"
| "run (c # cs) e = run cs (fst (perform c e))"

fun is_subscription :: "call \<Rightarrow> bool" where
  "is_subscription (CallSetCallback input_identifier) = True"
| "is_subscription other = False"

text \<open>The keys that the subscriptions of a run return, in the order of the calls.\<close>

fun issued_keys :: "call list \<Rightarrow> InputEngine \<Rightarrow> int list" where
  "issued_keys [] e = []"
| "issued_keys (c # cs) e =
     (case perform c e of
        (e1, None) \<Rightarrow> issued_keys cs e1
      | (e1, Some key) \<Rightarrow> key # issued_keys cs e1)"

subsection \<open>Notions used in the statements\<close>

text \<open>
  Between two engines, nothing but the table of controllers differs, and the table knows
  the same pads.
\<close>

definition only_table_changed :: "InputEngine \<Rightarrow> InputEngine \<Rightarrow> bool" where
  "only_table_changed e e' \<longleftrightarrow>
     callback_list e' = callback_list e \<and> mapping_callback e' = mapping_callback e \<and>
     configuring e' = configuring e \<and> last_callback_key e' = last_callback_key e \<and>
     input_engine e' = input_engine e \<and> GetHatButtonName e' = GetHatButtonName e \<and>
     (\<forall>identifier. map_of (controller_list e') identifier = None \<longleftrightarrow>
        map_of (controller_list e) identifier = None)"

text \<open>
  The keys of the subscriptions that have a notifier and whose device identity, input
  kind and input index are those of the event, in the order of the registry.
\<close>

definition matching_keys ::
  "InputEngine \<Rightarrow> PadIdentifier \<Rightarrow> EngineInputType \<Rightarrow> int \<Rightarrow> int list" where
  "matching_keys e identifier ty idx =
     map fst (filter (\<lambda>(key, poller).
        (identifier' poller, type poller, index poller) = (identifier, ty, idx) \<and>
        on_change (callback poller)) (callback_list e))"

text \<open>
  The entry of a button, of a hat and of an axis: what the table holds for a pad and an
  index, if the pad is known and the index has an entry.
\<close>

definition stored_button :: "InputEngine \<Rightarrow> PadIdentifier \<Rightarrow> int \<Rightarrow> bool option" where
  "stored_button e identifier idx =
     (case map_of (controller_list e) identifier of
        None \<Rightarrow> None
      | Some controller \<Rightarrow> map_of (buttons controller) idx)"

definition stored_hat :: "InputEngine \<Rightarrow> PadIdentifier \<Rightarrow> int \<Rightarrow> u8 option" where
  "stored_hat e identifier idx =
     (case map_of (controller_list e) identifier of
        None \<Rightarrow> None
      | Some controller \<Rightarrow> map_of (hat_buttons controller) idx)"

definition stored_axis :: "InputEngine \<Rightarrow> PadIdentifier \<Rightarrow> int \<Rightarrow> f32 option" where
  "stored_axis e identifier idx =
     (case map_of (controller_list e) identifier of
        None \<Rightarrow> None
      | Some controller \<Rightarrow> map_of (axes controller) idx)"

text \<open>
  The real number that a finite value denotes, and the magnitudes that are numbers of
  the format: those below \<open>2 ^ 128\<close> that need no more than 24 significant digits.
\<close>

fun valof :: "binary32 \<Rightarrow> real" where
  "valof (Finite negative m) = real_of_int (signed_units negative m) / 2 ^ 149"
| "valof other = 0"

definition representable :: "nat \<Rightarrow> bool" where
  "representable m \<longleftrightarrow> m < 2 ^ 277 \<and> m mod 2 ^ (bit_length m - 24) = 0"

text \<open>
  Two axis values differ by half: both are numbers and the exact difference of the
  numbers is \<open>1 / 2 - 1 / 2 ^ 26\<close> or more, the least difference that does not round below
  one half; or one of them is an infinity or no number.
\<close>

definition differs_by_half :: "f32 \<Rightarrow> f32 \<Rightarrow> bool" where
  "differs_by_half value stored =
     (case f32_value value of
        Finite sa ma \<Rightarrow>
          (case f32_value stored of
             Finite sb mb \<Rightarrow>
               1 / 2 - 1 / 2 ^ 26 \<le> \<bar>valof (Finite sa ma) - valof (Finite sb mb)\<bar>
           | other \<Rightarrow> True)
      | other \<Rightarrow> True)"

text \<open>
  An axis value is half deflected: it is a number of magnitude one half or more, or an
  infinity, or no number.
\<close>

definition half_deflected :: "f32 \<Rightarrow> bool" where
  "half_deflected stored =
     (case f32_value stored of
        Finite negative m \<Rightarrow> 1 / 2 \<le> \<bar>valof (Finite negative m)\<bar>
      | other \<Rightarrow> True)"

text \<open>Every entry of the first engine is an entry of the second, with the same value.\<close>

definition entries_kept :: "InputEngine \<Rightarrow> InputEngine \<Rightarrow> bool" where
  "entries_kept e e' \<longleftrightarrow>
     (\<forall>identifier idx v. stored_button e identifier idx = Some v \<longrightarrow>
        stored_button e' identifier idx = Some v) \<and>
     (\<forall>identifier idx v. stored_hat e identifier idx = Some v \<longrightarrow>
        stored_hat e' identifier idx = Some v) \<and>
     (\<forall>identifier idx v. stored_axis e identifier idx = Some v \<longrightarrow>
        stored_axis e' identifier idx = Some v)"

subsection \<open>The calls of a reset\<close>

text \<open>
  The calls that a reset makes, as the spec lists them: for every known device, the
  \<open>Set\<close> with the neutral value of every known button and then of every known hat
  (of every known axis, for the analog reset), in the order of the table.
\<close>

datatype reset_call =
    ResetButton PadIdentifier int
  | ResetHatButton PadIdentifier int
  | ResetAxis PadIdentifier int

fun invoke :: "reset_call \<Rightarrow> InputEngine \<Rightarrow> fault + InputEngine \<times> event list" where
  "invoke (ResetButton identifier button) = SetButton identifier button False"
| "invoke (ResetHatButton identifier button) = SetHatButton identifier button 0"
| "invoke (ResetAxis identifier axis) = SetAxis identifier axis 0"

definition button_state_calls :: "InputEngine \<Rightarrow> reset_call list" where
  "button_state_calls e =
     concat (map (\<lambda>controller.
        map (\<lambda>button. ResetButton (fst controller) (fst button)) (buttons (snd controller)) @
        map (\<lambda>button. ResetHatButton (fst controller) (fst button)) (hat_buttons (snd controller)))
       (controller_list e))"

definition analog_state_calls :: "InputEngine \<Rightarrow> reset_call list" where
  "analog_state_calls e =
     concat (map (\<lambda>controller.
        map (\<lambda>axis. ResetAxis (fst controller) (fst axis)) (axes (snd controller)))
       (controller_list e))"

fun call_pad :: "reset_call \<Rightarrow> PadIdentifier" where
  "call_pad (ResetButton identifier button) = identifier"
| "call_pad (ResetHatButton identifier button) = identifier"
| "call_pad (ResetAxis identifier axis) = identifier"

text \<open>The keys of the subscriptions that match the event of a call of a reset.\<close>

fun notified_by :: "InputEngine \<Rightarrow> reset_call \<Rightarrow> int list" where
  "notified_by e (ResetButton identifier button) = matching_keys e identifier Button button"
| "notified_by e (ResetHatButton identifier button) = matching_keys e identifier HatButton button"
| "notified_by e (ResetAxis identifier axis) = matching_keys e identifier Analog axis"

text \<open>
  The mapping events that the call of a reset emits while the engine is configuring and
  a mapping observer is registered: for a pressed button, for every set bit of a hat, and
  for an axis that is half deflected.
\<close>

fun detected_by :: "InputEngine \<Rightarrow> reset_call \<Rightarrow> event set" where
  "detected_by e (ResetButton identifier button) =
     (if stored_button e identifier button = Some True
      then {OnData (new_mapping_data\<lparr>engine := GetEngineName e, md_pad := identifier,
              md_type := Button, md_index := button, button_value := False\<rparr>)}
      else {})"
| "detected_by e (ResetHatButton identifier button) =
     (case stored_hat e identifier button of
        None \<Rightarrow> {}
      | Some stored \<Rightarrow>
          (\<lambda>n. OnData (new_mapping_data\<lparr>engine := GetEngineName e, md_pad := identifier,
                  md_type := HatButton, md_index := button,
                  hat_name := GetHatButtonName e (2 ^ n)\<rparr>)) ` {n. n < 8 \<and> bit stored n})"
| "detected_by e (ResetAxis identifier axis) =
     (case stored_axis e identifier axis of
        None \<Rightarrow> {}
      | Some stored \<Rightarrow>
          (if half_deflected stored
           then {OnData (new_mapping_data\<lparr>engine := GetEngineName e, md_pad := identifier,
                   md_type := Analog, md_index := axis, axis_value := 0\<rparr>)}
           else {}))"

subsection \<open>Engines used as examples\<close>

definition pad_A :: PadIdentifier where
  "pad_A = \<lparr>guid = 1, port = 0, pad = 0\<rparr>"

definition pad_B :: PadIdentifier where
  "pad_B = \<lparr>guid = 2, port = 0, pad = 0\<rparr>"

definition hat_names :: "u8 \<Rightarrow> string" where
  "hat_names direction =
     (if direction = 1 then ''up'' else if direction = 2 then ''right''
      else if direction = 4 then ''down'' else if direction = 8 then ''left''
      else ''Unknown'')"

definition fresh_engine :: InputEngine where
  "fresh_engine = new_engine ''sdl'' hat_names"

definition engine_A :: InputEngine where
  "engine_A =
     run [CallPreSetController pad_A, CallPreSetButton pad_A 5, CallPreSetHatButton pad_A 0,
          CallPreSetAxis pad_A 0, CallPreSetAxis pad_A 3, CallPreSetMotion pad_A 0]
       fresh_engine"

definition poller_A5 :: InputIdentifier where
  "poller_A5 = \<lparr>identifier' = pad_A, type = Button, index = 5, callback = \<lparr>on_change = True\<rparr>\<rparr>"

definition poller_A6 :: InputIdentifier where
  "poller_A6 = \<lparr>identifier' = pad_A, type = Button, index = 6, callback = \<lparr>on_change = True\<rparr>\<rparr>"

definition poller_B5 :: InputIdentifier where
  "poller_B5 = \<lparr>identifier' = pad_B, type = Button, index = 5, callback = \<lparr>on_change = True\<rparr>\<rparr>"

definition subscribe_calls :: "call list" where
  "subscribe_calls =
     [CallSetCallback poller_A5, CallSetCallback poller_A6, CallSetCallback poller_B5,
      CallDeleteCallback 1, CallSetCallback poller_A6]"

definition engine_subscribed :: InputEngine where
  "engine_subscribed =
     run [CallSetCallback poller_A5, CallSetCallback poller_A6, CallSetCallback poller_B5]
       fresh_engine"

definition engine_polled :: InputEngine where
  "engine_polled =
     run [CallPreSetController pad_B, CallSetCallback poller_A5, CallSetCallback poller_A6,
          CallSetCallback poller_B5] engine_A"

definition engine_configuring :: InputEngine where
  "engine_configuring =
     run [CallSetMappingCallback \<lparr>on_data = True\<rparr>, CallBeginConfiguration] engine_A"

text \<open>
  The axis values of the examples, by their bits: \<^verbatim>\<open>0.2f\<close>, \<^verbatim>\<open>0.3f\<close>, \<^verbatim>\<open>0.7f\<close> and
  \<^verbatim>\<open>0.9f\<close>, the binary32 numbers nearest to 0.2, 0.3, 0.7 and 0.9.
\<close>

definition f32_0_2 :: f32 where "f32_0_2 = 0x3e4ccccd"
definition f32_0_3 :: f32 where "f32_0_3 = 0x3e99999a"
definition f32_0_7 :: f32 where "f32_0_7 = 0x3f333333"
definition f32_0_9 :: f32 where "f32_0_9 = 0x3f666666"

definition engine_pressed :: InputEngine where
  "engine_pressed =
     run [CallSetCallback poller_A5, CallSetButton pad_A 5 True, CallSetHatButton pad_A 0 5,
          CallSetAxis pad_A 0 f32_0_9] engine_A"

definition tilted :: BasicMotion where
  "tilted = zero_motion\<lparr>accel_z := f32_0_9\<rparr>"

definition engine_held :: InputEngine where
  "engine_held =
     run [CallSetButton pad_A 5 True, CallSetHatButton pad_A 0 5, CallSetAxis pad_A 0 f32_0_9,
          CallSetMotion pad_A 0 tilted] engine_A"

definition engine_deflected_configuring :: InputEngine where
  "engine_deflected_configuring =
     run [CallSetAxis pad_A 0 f32_0_2, CallSetMappingCallback \<lparr>on_data = True\<rparr>,
          CallBeginConfiguration] engine_A"

definition engine_exhausted :: InputEngine where
  "engine_exhausted = run (replicate 2147483647 (CallSetCallback poller_B5)) fresh_engine"

definition engine_pressed_configuring :: InputEngine where
  "engine_pressed_configuring =
     run [CallSetMappingCallback \<lparr>on_data = True\<rparr>, CallBeginConfiguration] engine_pressed"

section \<open>Properties\<close>

subsection \<open>Rounding to binary32\<close>

lemma bit_length_0: "bit_length 0 = 0"
  by (simp add: bit_length.simps)

lemma bit_length_bounds:
  "0 < n \<Longrightarrow> 2 ^ (bit_length n - 1) \<le> n \<and> n < 2 ^ bit_length n"
proof (induction n rule: bit_length.induct)
  case (1 n)
  show ?case
  proof (cases "n div 2 = 0")
    case True
    with "1.prems" have "n = 1" by (simp add: div_eq_0_iff)
    then show ?thesis by (simp add: bit_length.simps)
  next
    case False
    with "1.IH" "1.prems" have inner: "2 ^ (bit_length (n div 2) - 1) \<le> n div 2"
      "n div 2 < 2 ^ bit_length (n div 2)" by simp_all
    from False have pos: "0 < bit_length (n div 2)" by (simp add: bit_length.simps [of "n div 2"])
    from "1.prems" have len: "bit_length n = Suc (bit_length (n div 2))"
      by (simp add: bit_length.simps [of n])
    from pos have "(2::nat) ^ bit_length (n div 2) = 2 * 2 ^ (bit_length (n div 2) - 1)"
      by (cases "bit_length (n div 2)") simp_all
    with inner(1) have "2 ^ bit_length (n div 2) \<le> n" by simp
    moreover from inner(2) have "n < 2 * 2 ^ bit_length (n div 2)" by simp
    ultimately show ?thesis unfolding len by simp
  qed
qed

lemma bit_length_le: "n < 2 ^ k \<Longrightarrow> bit_length n \<le> k"
proof (rule ccontr)
  assume small: "n < 2 ^ k" and "\<not> bit_length n \<le> k"
  then have long: "k \<le> bit_length n - 1" and "0 < n"
    by (auto simp: bit_length_0 intro: Nat.gr0I)
  with bit_length_bounds [of n] have low: "(2::nat) ^ (bit_length n - 1) \<le> n" by simp
  from long have "(2::nat) ^ k \<le> 2 ^ (bit_length n - 1)"
    by (rule power_increasing) simp
  from le_trans [OF this low] small show False by simp
qed

lemma bit_length_ge: "2 ^ k \<le> n \<Longrightarrow> Suc k \<le> bit_length n"
proof (rule ccontr)
  assume big: "2 ^ k \<le> n" and "\<not> Suc k \<le> bit_length n"
  then have short: "bit_length n \<le> k" by simp
  from big have "0 < n" by (auto intro: Nat.gr0I)
  with bit_length_bounds [of n] have high: "n < 2 ^ bit_length n" by simp
  from short have "(2::nat) ^ bit_length n \<le> 2 ^ k"
    by (rule power_increasing) simp
  from less_le_trans [OF high this] big show False by simp
qed

lemma bit_length_eq: "2 ^ k \<le> n \<Longrightarrow> n < 2 ^ Suc k \<Longrightarrow> bit_length n = Suc k"
  using bit_length_le [of n "Suc k"] bit_length_ge [of k n] by simp


lemma round_even_exact: "m mod 2 ^ shift = 0 \<Longrightarrow> round_even m shift = m"
  by (simp add: round_even_def Let_def mod_eq_0_iff_dvd)

lemma f32_round_representable: "representable m \<Longrightarrow> f32_round negative m = Finite negative m"
  by (simp add: representable_def f32_round_def round_even_exact Let_def)

lemma round_even_upper: "round_even m (bit_length m - 24) \<le> 2 ^ max 24 (bit_length m)"
proof (cases "bit_length m \<le> 24")
  case True
  have "m < 2 ^ max 24 (bit_length m)"
  proof (cases "m = 0")
    case False
    with bit_length_bounds [of m] have "m < 2 ^ bit_length m" by simp
    also have "(2::nat) ^ bit_length m \<le> 2 ^ max 24 (bit_length m)"
      by (rule power_increasing) simp_all
    finally show ?thesis .
  qed simp
  with True show ?thesis by (simp add: round_even_exact)
next
  case False
  define shift where "shift = bit_length m - 24"
  with False have len: "bit_length m = 24 + shift" by simp
  from False have "m \<noteq> 0" by (auto simp: bit_length_0 intro: Nat.gr0I)
  with bit_length_bounds [of m] have "m < 2 ^ 24 * 2 ^ shift" by (simp add: len power_add)
  then have "m div 2 ^ shift < 2 ^ 24" by (simp add: less_mult_imp_div_less)
  then have "m div 2 ^ shift + 1 \<le> 2 ^ 24" by simp
  then have step: "(m div 2 ^ shift + 1) * 2 ^ shift \<le> 2 ^ 24 * 2 ^ shift"
    by (rule mult_le_mono1)
  have "round_even m shift \<le> (m div 2 ^ shift + 1) * 2 ^ shift"
    by (simp add: round_even_def Let_def)
  from le_trans [OF this step] have "round_even m shift \<le> 2 ^ (24 + shift)"
    by (simp only: power_add)
  moreover from False have "max 24 (bit_length m) = 24 + shift" by (simp add: len)
  ultimately show ?thesis by (simp only: shift_def [symmetric])
qed

lemma round_even_lower:
  assumes "24 \<le> bit_length m"
  shows "2 ^ (bit_length m - 1) \<le> round_even m (bit_length m - 24)"
proof -
  define shift where "shift = bit_length m - 24"
  with assms have len: "bit_length m = 24 + shift" by simp
  from assms have "m \<noteq> 0" by (auto simp: bit_length_0 intro: Nat.gr0I)
  with bit_length_bounds [of m] have "2 ^ 23 * 2 ^ shift \<le> m"
    by (simp add: len power_add)
  then have "2 ^ 23 \<le> m div 2 ^ shift" by (simp add: less_eq_div_iff_mult_less_eq)
  then have step: "2 ^ 23 * 2 ^ shift \<le> m div 2 ^ shift * 2 ^ shift" by (rule mult_le_mono1)
  have "m div 2 ^ shift * 2 ^ shift \<le> round_even m shift"
    by (simp add: round_even_def Let_def)
  from le_trans [OF step this] have "2 ^ (23 + shift) \<le> round_even m shift"
    by (simp only: power_add)
  moreover have "bit_length m - 1 = 23 + shift" by (simp add: len)
  ultimately show ?thesis by (simp only: shift_def [symmetric])
qed

lemma rounds_to_half:
  "2 ^ 148 \<le> round_even m (bit_length m - 24) \<longleftrightarrow> 2 ^ 148 - 2 ^ 123 \<le> m"
proof -
  consider (big) "2 ^ 148 \<le> m" | (small) "m < 2 ^ 147" | (mid) "2 ^ 147 \<le> m" "m < 2 ^ 148"
    by linarith
  then show ?thesis
  proof cases
    case big
    from bit_length_ge [OF big] have long: "149 \<le> bit_length m" by simp
    then have "(2::nat) ^ 148 \<le> 2 ^ (bit_length m - 1)" by (intro power_increasing) simp_all
    moreover from long have "2 ^ (bit_length m - 1) \<le> round_even m (bit_length m - 24)"
      by (intro round_even_lower) simp
    ultimately have "2 ^ 148 \<le> round_even m (bit_length m - 24)" by (rule le_trans)
    with big show ?thesis by simp
  next
    case small
    from bit_length_le [OF small] have "max 24 (bit_length m) \<le> 147" by simp
    then have "(2::nat) ^ max 24 (bit_length m) \<le> 2 ^ 147" by (intro power_increasing) simp_all
    with round_even_upper [of m] have "round_even m (bit_length m - 24) \<le> 2 ^ 147"
      by (rule le_trans)
    with small show ?thesis by simp
  next
    case mid
    from bit_length_ge [OF mid(1)] bit_length_le [OF mid(2)] have len: "bit_length m = 148"
      by simp
    define q r where "q = m div 2 ^ 124" and "r = m mod 2 ^ 124"
    have m: "m = q * 2 ^ 124 + r" and r: "r < 2 ^ 124" by (simp_all add: q_def r_def)
    from mid(2) have q: "q < 2 ^ 24" unfolding q_def by (simp add: less_mult_imp_div_less)
    have rounded: "round_even m (bit_length m - 24) =
        (if 2 ^ 124 < 2 * r \<or> (2 * r = 2 ^ 124 \<and> odd q) then q + 1 else q) * 2 ^ 124"
      by (simp add: len round_even_def Let_def q_def r_def)
    from m have bound: "(2 ^ 148 - 2 ^ 123 \<le> m) = (2 ^ 148 - 2 ^ 123 \<le> q * 2 ^ 124 + r)"
      by simp
    show ?thesis
    proof (cases "q = 2 ^ 24 - 1")
      case True
      then have "odd q" by simp
      with True r show ?thesis unfolding rounded bound by auto
    next
      case False
      with q have "q + 1 \<le> 2 ^ 24 - 1" by simp
      then have "(q + 1) * 2 ^ 124 \<le> (2 ^ 24 - 1) * 2 ^ 124" by (rule mult_le_mono1)
      moreover have "round_even m (bit_length m - 24) \<le> (q + 1) * 2 ^ 124"
        by (simp add: rounded)
      ultimately have "round_even m (bit_length m - 24) \<le> (2 ^ 24 - 1) * 2 ^ 124"
        by (rule le_trans [rotated])
      moreover from r have "q * 2 ^ 124 + r < (q + 1) * 2 ^ 124" by simp
      ultimately show ?thesis using \<open>(q + 1) * 2 ^ 124 \<le> (2 ^ 24 - 1) * 2 ^ 124\<close>
        unfolding bound by simp
    qed
  qed
qed


lemma f32_round_below_half:
  "f32_less (f32_abs (f32_round negative m)) (Finite False (2 ^ 148)) \<longleftrightarrow> m < 2 ^ 148 - 2 ^ 123"
proof -
  have "f32_less (f32_abs (f32_round negative m)) (Finite False (2 ^ 148)) \<longleftrightarrow>
      round_even m (bit_length m - 24) < 2 ^ 148"
    by (auto simp: f32_round_def Let_def)
  also have "\<dots> \<longleftrightarrow> \<not> 2 ^ 148 \<le> round_even m (bit_length m - 24)" by auto
  also have "\<dots> \<longleftrightarrow> m < 2 ^ 148 - 2 ^ 123" unfolding rounds_to_half by auto
  finally show ?thesis .
qed

lemma sub_below_half_units:
  "f32_less (f32_abs (f32_sub (Finite sa ma) (Finite sb mb))) (Finite False (2 ^ 148)) \<longleftrightarrow>
   \<bar>signed_units sa ma - signed_units sb mb\<bar> < 2 ^ 148 - 2 ^ 123"
proof (cases "signed_units sa ma - signed_units sb mb = 0")
  case True
  then show ?thesis by (simp add: f32_sub_def)
next
  case False
  define d where "d = signed_units sa ma - signed_units sb mb"
  have "f32_sub (Finite sa ma) (Finite sb mb) = f32_round (d < 0) (nat \<bar>d\<bar>)"
    using False by (simp add: f32_sub_def d_def Let_def)
  moreover have "nat \<bar>d\<bar> < 2 ^ 148 - 2 ^ 123 \<longleftrightarrow> \<bar>d\<bar> < 2 ^ 148 - 2 ^ 123"
    by (simp add: nat_less_iff)
  ultimately show ?thesis unfolding d_def [symmetric] by (simp only: f32_round_below_half)
qed

lemma sub_below_half_real:
  "f32_less (f32_abs (f32_sub (Finite sa ma) (Finite sb mb))) (Finite False (2 ^ 148)) \<longleftrightarrow>
   \<bar>valof (Finite sa ma) - valof (Finite sb mb)\<bar> < 1 / 2 - 1 / 2 ^ 26"
proof -
  define d where "d = signed_units sa ma - signed_units sb mb"
  have "valof (Finite sa ma) - valof (Finite sb mb) = real_of_int d / 2 ^ 149"
    unfolding d_def valof.simps of_int_diff diff_divide_distrib ..
  then have "\<bar>valof (Finite sa ma) - valof (Finite sb mb)\<bar> = \<bar>real_of_int d / 2 ^ 149\<bar>"
    by (rule arg_cong)
  also have "\<dots> = real_of_int \<bar>d\<bar> / 2 ^ 149" by simp
  finally have "\<bar>valof (Finite sa ma) - valof (Finite sb mb)\<bar> = real_of_int \<bar>d\<bar> / 2 ^ 149" .
  moreover have "real_of_int \<bar>d\<bar> / 2 ^ 149 < 1 / 2 - 1 / 2 ^ 26 \<longleftrightarrow>
      real_of_int \<bar>d\<bar> < real_of_int (2 ^ 148 - 2 ^ 123)"
    by (simp add: field_simps)
  moreover have "real_of_int \<bar>d\<bar> < real_of_int (2 ^ 148 - 2 ^ 123) \<longleftrightarrow> \<bar>d\<bar> < 2 ^ 148 - 2 ^ 123"
    by (rule of_int_less_iff)
  ultimately show ?thesis unfolding sub_below_half_units d_def [symmetric] by (simp only:)
qed



lemma f32_literals:
  "f32_value 0 = Finite False 0"
  "f32_value f32_0_5 = Finite False (2 ^ 148)"
  "f32_value f32_0_6 = Finite False (10066330 * 2 ^ 125)"
  "f32_value f32_1_5 = Finite False (3 * 2 ^ 148)"
  "f32_value f32_0_2 = Finite False (13421773 * 2 ^ 123)"
  "f32_value f32_0_3 = Finite False (10066330 * 2 ^ 124)"
  "f32_value f32_0_7 = Finite False (11744051 * 2 ^ 125)"
  "f32_value f32_0_9 = Finite False (15099494 * 2 ^ 125)"
  by (simp_all add: f32_value_def f32_0_5_def f32_0_6_def f32_1_5_def f32_0_2_def f32_0_3_def
      f32_0_7_def f32_0_9_def)

lemma representable_small: "m < 2 ^ 23 \<Longrightarrow> representable m"
proof -
  assume small: "m < 2 ^ 23"
  from bit_length_le [OF this] have "bit_length m - 24 = 0" by simp
  moreover from small have "m < 2 ^ 277"
    by (rule less_le_trans) simp
  ultimately show ?thesis by (simp add: representable_def)
qed

lemma representable_normal:
  assumes "fraction < 2 ^ 23" and "k \<le> 253"
  shows "representable ((2 ^ 23 + fraction) * 2 ^ k)"
proof -
  define m where "m = (2 ^ 23 + fraction) * 2 ^ k"
  have "2 ^ 23 * 2 ^ k \<le> m" unfolding m_def by (rule mult_le_mono1) simp
  then have low: "2 ^ (23 + k) \<le> m" by (simp only: power_add)
  from assms(1) have "2 ^ 23 + fraction < 2 ^ 24" by simp
  then have "m < 2 ^ 24 * 2 ^ k" unfolding m_def by simp
  then have high: "m < 2 ^ Suc (23 + k)" by (simp add: power_add)
  from bit_length_eq [OF low high] have len: "bit_length m - 24 = k" by simp
  from assms(2) have "(2::nat) ^ Suc (23 + k) \<le> 2 ^ 277" by (intro power_increasing) simp_all
  with high have "m < 2 ^ 277" by (rule less_le_trans)
  moreover have "m mod 2 ^ k = 0" unfolding m_def by simp
  ultimately show ?thesis unfolding m_def [symmetric] representable_def len by simp
qed

lemma f32_value_representable:
  assumes "f32_value w = Finite negative m"
  shows "representable m"
proof -
  define exponent where "exponent = unat (take_bit 8 (drop_bit 23 w))"
  define fraction where "fraction = unat (take_bit 23 w)"
  have "exponent < 2 ^ 8" unfolding exponent_def unsigned_take_bit_eq
    by (rule take_bit_nat_less_exp)
  then have e: "exponent < 256" by simp
  have f: "fraction < 2 ^ 23" unfolding fraction_def unsigned_take_bit_eq
    by (rule take_bit_nat_less_exp)
  from assms have cases: "exponent \<noteq> 255"
    "m = (if exponent = 0 then fraction else (2 ^ 23 + fraction) * 2 ^ (exponent - 1))"
    by (auto simp: f32_value_def Let_def exponent_def fraction_def split: if_splits)
  show ?thesis
  proof (cases "exponent = 0")
    case True
    with cases f show ?thesis by (simp add: representable_small)
  next
    case False
    with cases e have "exponent - 1 \<le> 253" by simp
    from representable_normal [OF f this] cases False show ?thesis by simp
  qed
qed

lemma axis_test:
  "f32_less (f32_abs (f32_sub (f32_value value) (f32_value stored))) (f32_value f32_0_5) \<longleftrightarrow>
   \<not> differs_by_half value stored"
proof (cases "f32_value value")
  case NaN
  then show ?thesis by (simp add: differs_by_half_def f32_sub_def)
next
  case (Infinity sa)
  then show ?thesis
    by (cases "f32_value stored") (simp_all add: differs_by_half_def f32_sub_def f32_literals)
next
  case a: (Finite sa ma)
  show ?thesis
  proof (cases "f32_value stored")
    case (Finite sb mb)
    have "f32_less (f32_abs (f32_sub (f32_value value) (f32_value stored))) (f32_value f32_0_5)
        \<longleftrightarrow> \<bar>valof (Finite sa ma) - valof (Finite sb mb)\<bar> < 1 / 2 - 1 / 2 ^ 26"
      unfolding a Finite f32_literals by (rule sub_below_half_real)
    moreover have "differs_by_half value stored
        \<longleftrightarrow> 1 / 2 - 1 / 2 ^ 26 \<le> \<bar>valof (Finite sa ma) - valof (Finite sb mb)\<bar>"
      by (simp add: differs_by_half_def a Finite del: valof.simps)
    ultimately show ?thesis by (simp only: not_le)
  qed (simp_all add: a differs_by_half_def f32_sub_def f32_literals)
qed

lemma reset_axis_test:
  "differs_by_half 0 stored \<longleftrightarrow> half_deflected stored"
proof (cases "f32_value stored")
  case (Finite negative m)
  from f32_value_representable [OF this] have m: "representable m" .
  have "f32_less (f32_abs (f32_sub (Finite False 0) (Finite negative m))) (Finite False (2 ^ 148))
      \<longleftrightarrow> m < 2 ^ 148"
  proof (cases "m = 0")
    case True
    then show ?thesis by (simp add: f32_sub_def)
  next
    case False
    then show ?thesis by (simp add: f32_sub_def f32_round_representable [OF m] Let_def)
  qed
  moreover have "1 / 2 \<le> \<bar>valof (Finite negative m)\<bar> \<longleftrightarrow> 2 ^ 148 \<le> m"
  proof -
    have "\<bar>valof (Finite negative m)\<bar> = real m / 2 ^ 149" by simp
    moreover have "1 / 2 \<le> real m / 2 ^ 149 \<longleftrightarrow> real (2 ^ 148) \<le> real m"
      by (simp add: field_simps)
    ultimately show ?thesis by (simp only: of_nat_le_iff)
  qed
  ultimately have "\<not> differs_by_half 0 stored \<longleftrightarrow> \<not> half_deflected stored"
    unfolding axis_test [symmetric] half_deflected_def f32_literals Finite
    by (simp add: not_le del: valof.simps)
  then show ?thesis by blast
qed (simp_all add: differs_by_half_def half_deflected_def f32_literals)

subsection \<open>Association lists\<close>

lemma map_of_try_emplace:
  "map_of (try_emplace k v m) k' =
     (if k' = k then (case map_of m k of None \<Rightarrow> Some v | Some w \<Rightarrow> Some w) else map_of m k')"
  by (induction m) (auto split: option.splits)

lemma try_emplace_present: "map_of m k = Some w \<Longrightarrow> try_emplace k v m = m"
  by (induction m) (auto split: if_splits)

lemma map_of_insert_or_assign: "map_of (insert_or_assign k v m) = (map_of m)(k \<mapsto> v)"
  by (induction m) (auto simp: fun_eq_iff)

lemma insert_or_assign_same: "map_of m k = Some v \<Longrightarrow> insert_or_assign k v m = m"
  by (induction m) (auto split: if_splits)

text \<open>The operations keep the keys of a list unique.\<close>

lemma keys_try_emplace: "fst ` set (try_emplace k v m) = insert k (fst ` set m)"
proof (induction m)
  case Nil
  then show ?case by simp
next
  case (Cons p m)
  then show ?case by (cases p) (simp add: insert_commute)
qed

lemma keys_insert_or_assign: "fst ` set (insert_or_assign k v m) = insert k (fst ` set m)"
proof (induction m)
  case Nil
  then show ?case by simp
next
  case (Cons p m)
  then show ?case by (cases p) (simp add: insert_commute)
qed

lemma keys_erase: "fst ` set (erase k m) \<subseteq> fst ` set m"
proof (induction m)
  case Nil
  then show ?case by simp
next
  case (Cons p m)
  then show ?case by (cases p) auto
qed

lemma unique_keys_kept:
  assumes "distinct (map fst m)"
  shows "distinct (map fst (try_emplace k v m))"
    and "distinct (map fst (insert_or_assign k v m))"
    and "distinct (map fst (erase k m))"
proof -
  show "distinct (map fst (try_emplace k v m))"
    using assms by (induction m) (auto simp: keys_try_emplace)
  show "distinct (map fst (insert_or_assign k v m))"
    using assms by (induction m) (auto simp: keys_insert_or_assign)
  show "distinct (map fst (erase k m))"
    using assms
  proof (induction m)
    case Nil
    then show ?case by simp
  next
    case (Cons p m)
    with keys_erase [of k m] show ?case by (cases p) auto
  qed
qed

lemma try_emplace_twice: "try_emplace k v (try_emplace k w m) = try_emplace k w m"
  by (induction m) auto

lemma insert_or_assign_twice:
  "insert_or_assign k v (insert_or_assign k w m) = insert_or_assign k v m"
  by (induction m) auto

lemma map_of_erase_other: "k' \<noteq> k \<Longrightarrow> map_of (erase k m) k' = map_of m k'"
  by (induction m) auto

lemma map_of_erase_distinct:
  "distinct (map fst m) \<Longrightarrow> map_of (erase k m) k' = (if k' = k then None else map_of m k')"
  by (induction m) (fastforce simp: map_of_eq_None_iff image_iff)+

lemma with_controller_unknown:
  "map_of (controller_list e) identifier = None \<Longrightarrow> with_controller identifier f e = Inl OutOfRange"
  by (simp add: with_controller_def at_key_def)

lemma with_controller_known:
  "map_of (controller_list e) identifier = Some controller \<Longrightarrow>
   with_controller identifier f e =
     Inr (e\<lparr>controller_list := insert_or_assign identifier (f controller) (controller_list e)\<rparr>)"
  by (simp add: with_controller_def at_key_def)

lemma hat_loop_from_1:
  "hat_loop 1 identifier button value e =
     Some (concat (map (\<lambda>idx. hat_direction idx identifier button value e)
                     [1, 2, 4, 8, 16, 32, 64, 128]))"
  by (simp add: hat_loop.simps)

subsection \<open>What each call does to a known pad\<close>

lemma write_back_same:
  "map_of (controller_list e) identifier = Some controller \<Longrightarrow>
   e\<lparr>controller_list := insert_or_assign identifier controller (controller_list e)\<rparr> = e"
  by (simp add: insert_or_assign_same)

lemma PreSetButton_known:
  assumes "map_of (controller_list e) identifier = Some controller"
  shows "PreSetButton identifier button e =
           Inr (e\<lparr>controller_list :=
                    insert_or_assign identifier
                      (controller\<lparr>buttons := try_emplace button False (buttons controller)\<rparr>)
                      (controller_list e)\<rparr>)"
  using assms by (simp add: PreSetButton_def with_controller_known)

lemma PreSetHatButton_known:
  assumes "map_of (controller_list e) identifier = Some controller"
  shows "PreSetHatButton identifier button e =
           Inr (e\<lparr>controller_list :=
                    insert_or_assign identifier
                      (controller\<lparr>hat_buttons := try_emplace button 0 (hat_buttons controller)\<rparr>)
                      (controller_list e)\<rparr>)"
  using assms by (simp add: PreSetHatButton_def with_controller_known)

lemma PreSetAxis_known:
  assumes "map_of (controller_list e) identifier = Some controller"
  shows "PreSetAxis identifier axis e =
           Inr (e\<lparr>controller_list :=
                    insert_or_assign identifier
                      (controller\<lparr>axes := try_emplace axis 0 (axes controller)\<rparr>)
                      (controller_list e)\<rparr>)"
  using assms by (simp add: PreSetAxis_def with_controller_known)

lemma PreSetMotion_known:
  assumes "map_of (controller_list e) identifier = Some controller"
  shows "PreSetMotion identifier motion e =
           Inr (e\<lparr>controller_list :=
                    insert_or_assign identifier
                      (controller\<lparr>motions := try_emplace motion zero_motion (motions controller)\<rparr>)
                      (controller_list e)\<rparr>)"
  using assms by (simp add: PreSetMotion_def with_controller_known)

lemma SetButton_normal:
  assumes "\<not> configuring e" and "map_of (controller_list e) identifier = Some controller"
  shows "SetButton identifier button value e =
           Inr (e\<lparr>controller_list :=
                    insert_or_assign identifier
                      (controller\<lparr>buttons := insert_or_assign button value (buttons controller)\<rparr>)
                      (controller_list e)\<rparr>,
                notify_pollers (callback_list e) identifier Button button)"
  using assms by (simp add: SetButton_def with_controller_known TriggerOnButtonChange_def)

lemma SetHatButton_normal:
  assumes "\<not> configuring e" and "map_of (controller_list e) identifier = Some controller"
  shows "SetHatButton identifier button value e =
           Inr (e\<lparr>controller_list :=
                    insert_or_assign identifier
                      (controller\<lparr>hat_buttons := insert_or_assign button value (hat_buttons controller)\<rparr>)
                      (controller_list e)\<rparr>,
                notify_pollers (callback_list e) identifier HatButton button)"
  using assms by (simp add: SetHatButton_def with_controller_known TriggerOnHatButtonChange_def)

lemma SetAxis_normal:
  assumes "\<not> configuring e" and "map_of (controller_list e) identifier = Some controller"
  shows "SetAxis identifier axis value e =
           Inr (e\<lparr>controller_list :=
                    insert_or_assign identifier
                      (controller\<lparr>axes := insert_or_assign axis value (axes controller)\<rparr>)
                      (controller_list e)\<rparr>,
                notify_pollers (callback_list e) identifier Analog axis)"
  using assms by (simp add: SetAxis_def with_controller_known TriggerOnAxisChange_def)

lemma SetBattery_normal:
  assumes "\<not> configuring e" and "map_of (controller_list e) identifier = Some controller"
  shows "SetBattery identifier value e =
           Inr (e\<lparr>controller_list :=
                    insert_or_assign identifier (controller\<lparr>battery := value\<rparr>) (controller_list e)\<rparr>,
                notify_pollers (callback_list e) identifier Battery 0)"
  using assms by (simp add: SetBattery_def with_controller_known TriggerOnBatteryChange_def)

lemma SetMotion_normal:
  assumes "\<not> configuring e" and "map_of (controller_list e) identifier = Some controller"
  shows "SetMotion identifier motion value e =
           Inr (e\<lparr>controller_list :=
                    insert_or_assign identifier
                      (controller\<lparr>motions := insert_or_assign motion value (motions controller)\<rparr>)
                      (controller_list e)\<rparr>,
                notify_pollers (callback_list e) identifier Motion motion)"
  using assms by (simp add: SetMotion_def with_controller_known TriggerOnMotionChange_def)

lemma SetButton_configuring:
  assumes "configuring e" and "map_of (controller_list e) identifier = Some controller"
  shows "SetButton identifier button value e =
           (if \<not> on_data (mapping_callback e)
            then Inr (e, notify_pollers (callback_list e) identifier Button button)
            else Inr (e\<lparr>controller_list :=
                    insert_or_assign identifier
                      (controller\<lparr>buttons := try_emplace button False (buttons controller)\<rparr>)
                      (controller_list e)\<rparr>,
                  notify_pollers (callback_list e) identifier Button button @
                  (if value = (case map_of (buttons controller) button of None \<Rightarrow> False | Some w \<Rightarrow> w)
                   then []
                   else [OnData (new_mapping_data\<lparr>engine := input_engine e, md_pad := identifier,
                        md_type := Button, md_index := button, button_value := value\<rparr>)])))"
  using assms
  by (simp add: SetButton_def with_controller_known write_back_same TriggerOnButtonChange_def
      PreSetButton_known GetButton_def map_of_insert_or_assign map_of_try_emplace GetEngineName_def
      split: option.splits)

lemma SetHatButton_configuring:
  assumes "configuring e" and "map_of (controller_list e) identifier = Some controller"
  shows "SetHatButton identifier button value e =
           Inr (e, notify_pollers (callback_list e) identifier HatButton button @
                   (if \<not> on_data (mapping_callback e) then []
                    else concat (map (\<lambda>idx. hat_direction idx identifier button value e)
                                   [1, 2, 4, 8, 16, 32, 64, 128])))"
  using assms
  by (simp add: SetHatButton_def with_controller_known write_back_same
      TriggerOnHatButtonChange_def hat_loop_from_1)

lemma SetAxis_configuring:
  assumes "configuring e" and "map_of (controller_list e) identifier = Some controller"
  shows "SetAxis identifier axis value e =
           Inr (e, notify_pollers (callback_list e) identifier Analog axis @
                   (if \<not> on_data (mapping_callback e) then []
                    else snd (GetAxis identifier axis e) @
                      (if differs_by_half value (fst (GetAxis identifier axis e))
                       then [OnData (new_mapping_data\<lparr>engine := input_engine e,
                               md_pad := identifier, md_type := Analog, md_index := axis,
                               axis_value := value\<rparr>)]
                       else [])))"
  using assms
  by (simp add: SetAxis_def with_controller_known write_back_same TriggerOnAxisChange_def
      GetEngineName_def Let_def case_prod_beta axis_test)

lemma SetBattery_configuring:
  assumes "configuring e" and "map_of (controller_list e) identifier = Some controller"
  shows "SetBattery identifier value e =
           Inr (e, notify_pollers (callback_list e) identifier Battery 0)"
  using assms
  by (simp add: SetBattery_def with_controller_known write_back_same TriggerOnBatteryChange_def)

lemma SetMotion_configuring:
  assumes "configuring e" and "map_of (controller_list e) identifier = Some controller"
  shows "\<exists>detected. SetMotion identifier motion value e =
           Inr (e, notify_pollers (callback_list e) identifier Motion motion @ detected)
         \<and> on_change_keys detected = []"
  using assms
  by (simp add: SetMotion_def with_controller_known write_back_same TriggerOnMotionChange_def
      Let_def)

subsection \<open>Queries and registration\<close>

lemma engine_A_eq:
  "engine_A =
     \<lparr>controller_list =
        [(pad_A, \<lparr>buttons = [(5, False)], hat_buttons = [(0, 0)], axes = [(0, 0), (3, 0)],
                  motions = [(0, zero_motion)], battery = BatteryNone\<rparr>)],
      callback_list = [], mapping_callback = \<lparr>on_data = False\<rparr>, configuring = False,
      last_callback_key = 0, input_engine = ''sdl'', GetHatButtonName = hat_names\<rparr>"
  by (simp add: engine_A_def fresh_engine_def new_engine_def PreSetController_def
      PreSetButton_def PreSetHatButton_def PreSetAxis_def PreSetMotion_def with_controller_def
      at_key_def registered_def new_controller_def)

text \<open>
  Claim C2. A query for an unknown pad or an unknown index logs an error and returns the
  default without faulting. \<open>GetMotion\<close> on a known pad looks the index up with
  \<^verbatim>\<open>at\<close>: for an index that was never pre-set the call ends with
  \<^verbatim>\<open>std::out_of_range\<close>, where the claim promises the zeroed sample.
\<close>

theorem GetMotion_unset_index_faults:
  "GetMotion pad_A 0 (PreSetController pad_A fresh_engine) = Inl OutOfRange"
  by (simp add: GetMotion_def PreSetController_def fresh_engine_def new_engine_def
      new_controller_def at_key_def)

text \<open>What the queries return where they do check: the defaults, with one line logged.\<close>

lemma query_defaults:
  "map_of (controller_list e) identifier = None \<Longrightarrow>
     GetButton identifier button e = (False, [LogError (InvalidIdentifier identifier)]) \<and>
     GetHatButton identifier button direction e = (False, [LogError (InvalidIdentifier identifier)]) \<and>
     GetAxis identifier axis e = (0, [LogError (InvalidIdentifier identifier)]) \<and>
     GetBattery identifier e = (Charging, [LogError (InvalidIdentifier identifier)]) \<and>
     GetMotion identifier motion e = Inr (zero_motion, [LogError (InvalidIdentifier identifier)])"
  "map_of (controller_list e) identifier = Some controller \<Longrightarrow>
     (map_of (buttons controller) button = None \<longrightarrow>
        GetButton identifier button e = (False, [LogError (InvalidButton button)])) \<and>
     (map_of (hat_buttons controller) button = None \<longrightarrow>
        GetHatButton identifier button direction e = (False, [LogError (InvalidHatButton button)])) \<and>
     (map_of (axes controller) axis = None \<longrightarrow>
        GetAxis identifier axis e = (0, [LogError (InvalidAxis axis)])) \<and>
     (map_of (motions controller) motion = None \<longrightarrow>
        GetMotion identifier motion e = Inl OutOfRange)"
  by (simp_all add: GetButton_def GetHatButton_def GetAxis_def GetBattery_def GetMotion_def
      at_key_def)

text \<open>
  Claim C7, as the code has it. On a known pad, a \<open>PreSet\<close> for an index that has an
  entry leaves the engine as it is, stored value included; for an index that has none it
  registers the default (\<open>False\<close>, mask 0, 0.0, the zeroed sample), which the query then
  returns, and a second \<open>PreSet\<close> changes nothing.
\<close>

theorem PreSet_keeps_present_entry:
  assumes "map_of (controller_list e) identifier = Some controller"
  shows "(case map_of (buttons controller) idx of
            Some v \<Rightarrow> PreSetButton identifier idx e = Inr e
          | None \<Rightarrow> (\<exists>e'. PreSetButton identifier idx e = Inr e' \<and>
                       GetButton identifier idx e' = (False, []) \<and>
                       PreSetButton identifier idx e' = Inr e'))
       \<and> (case map_of (hat_buttons controller) idx of
            Some v \<Rightarrow> PreSetHatButton identifier idx e = Inr e
          | None \<Rightarrow> (\<exists>e'. PreSetHatButton identifier idx e = Inr e' \<and>
                       GetHatButton identifier idx direction e' = (False, []) \<and>
                       PreSetHatButton identifier idx e' = Inr e'))
       \<and> (case map_of (axes controller) idx of
            Some v \<Rightarrow> PreSetAxis identifier idx e = Inr e
          | None \<Rightarrow> (\<exists>e'. PreSetAxis identifier idx e = Inr e' \<and>
                       GetAxis identifier idx e' = (0, []) \<and>
                       PreSetAxis identifier idx e' = Inr e'))
       \<and> (case map_of (motions controller) idx of
            Some v \<Rightarrow> PreSetMotion identifier idx e = Inr e
          | None \<Rightarrow> (\<exists>e'. PreSetMotion identifier idx e = Inr e' \<and>
                       GetMotion identifier idx e' = Inr (zero_motion, []) \<and>
                       PreSetMotion identifier idx e' = Inr e'))"
proof -
  note known = PreSetButton_known [OF assms] PreSetHatButton_known [OF assms]
    PreSetAxis_known [OF assms] PreSetMotion_known [OF assms]
  have 1: "case map_of (buttons controller) idx of
            Some v \<Rightarrow> PreSetButton identifier idx e = Inr e
          | None \<Rightarrow> (\<exists>e'. PreSetButton identifier idx e = Inr e' \<and>
                       GetButton identifier idx e' = (False, []) \<and>
                       PreSetButton identifier idx e' = Inr e')"
    using assms
    by (simp add: known try_emplace_present write_back_same PreSetButton_def with_controller_def
        at_key_def GetButton_def map_of_insert_or_assign map_of_try_emplace insert_or_assign_same
        try_emplace_twice insert_or_assign_twice split: option.split)
  have 2: "case map_of (hat_buttons controller) idx of
            Some v \<Rightarrow> PreSetHatButton identifier idx e = Inr e
          | None \<Rightarrow> (\<exists>e'. PreSetHatButton identifier idx e = Inr e' \<and>
                       GetHatButton identifier idx direction e' = (False, []) \<and>
                       PreSetHatButton identifier idx e' = Inr e')"
    using assms
    by (simp add: known try_emplace_present write_back_same PreSetHatButton_def with_controller_def
        at_key_def GetHatButton_def map_of_insert_or_assign map_of_try_emplace insert_or_assign_same
        try_emplace_twice insert_or_assign_twice split: option.split)
  have 3: "case map_of (axes controller) idx of
            Some v \<Rightarrow> PreSetAxis identifier idx e = Inr e
          | None \<Rightarrow> (\<exists>e'. PreSetAxis identifier idx e = Inr e' \<and>
                       GetAxis identifier idx e' = (0, []) \<and>
                       PreSetAxis identifier idx e' = Inr e')"
    using assms
    by (simp add: known try_emplace_present write_back_same PreSetAxis_def with_controller_def
        at_key_def GetAxis_def map_of_insert_or_assign map_of_try_emplace insert_or_assign_same
        try_emplace_twice insert_or_assign_twice split: option.split)
  have 4: "case map_of (motions controller) idx of
            Some v \<Rightarrow> PreSetMotion identifier idx e = Inr e
          | None \<Rightarrow> (\<exists>e'. PreSetMotion identifier idx e = Inr e' \<and>
                       GetMotion identifier idx e' = Inr (zero_motion, []) \<and>
                       PreSetMotion identifier idx e' = Inr e')"
    using assms
    by (simp add: known try_emplace_present write_back_same PreSetMotion_def with_controller_def
        at_key_def GetMotion_def map_of_insert_or_assign map_of_try_emplace insert_or_assign_same
        try_emplace_twice insert_or_assign_twice split: option.split)
  from 1 2 3 4 show ?thesis by blast
qed

lemma engine_A_pad_A:
  "map_of (controller_list engine_A) pad_A =
     Some \<lparr>buttons = [(5, False)], hat_buttons = [(0, 0)], axes = [(0, 0), (3, 0)],
           motions = [(0, zero_motion)], battery = BatteryNone\<rparr>"
  by (simp add: engine_A_eq)

lemma engine_held_eq:
  "engine_held =
     \<lparr>controller_list =
        [(pad_A, \<lparr>buttons = [(5, True)], hat_buttons = [(0, 5)], axes = [(0, f32_0_9), (3, 0)],
                  motions = [(0, tilted)], battery = BatteryNone\<rparr>)],
      callback_list = [], mapping_callback = \<lparr>on_data = False\<rparr>, configuring = False,
      last_callback_key = 0, input_engine = ''sdl'', GetHatButtonName = hat_names\<rparr>"
  by (simp add: engine_held_def engine_A_eq SetButton_def SetHatButton_def SetAxis_def
      SetMotion_def with_controller_def at_key_def mutated_def TriggerOnButtonChange_def
      TriggerOnHatButtonChange_def TriggerOnAxisChange_def TriggerOnMotionChange_def)

lemma engine_held_pad_A:
  "map_of (controller_list engine_held) pad_A =
     Some \<lparr>buttons = [(5, True)], hat_buttons = [(0, 5)], axes = [(0, f32_0_9), (3, 0)],
           motions = [(0, tilted)], battery = BatteryNone\<rparr>"
  by (simp add: engine_held_eq)

text \<open>
  On an engine whose entries hold values that are not the defaults, a \<open>PreSet\<close> of each
  entry leaves the value; a \<open>PreSet\<close> of an index that has no entry registers the default.
\<close>

theorem PreSet_keeps_present_entry_witness:
  "PreSetButton pad_A 5 engine_held = Inr engine_held
   \<and> GetButton pad_A 5 engine_held = (True, [])
   \<and> PreSetHatButton pad_A 0 engine_held = Inr engine_held
   \<and> stored_hat engine_held pad_A 0 = Some 5
   \<and> PreSetAxis pad_A 0 engine_held = Inr engine_held
   \<and> GetAxis pad_A 0 engine_held = (f32_0_9, [])
   \<and> PreSetMotion pad_A 0 engine_held = Inr engine_held
   \<and> GetMotion pad_A 0 engine_held = Inr (tilted, [])
   \<and> (\<exists>e'. PreSetButton pad_A 0 engine_held = Inr e' \<and> GetButton pad_A 0 e' = (False, [])
          \<and> PreSetButton pad_A 0 e' = Inr e')
   \<and> (\<exists>e'. PreSetAxis pad_A 1 engine_held = Inr e' \<and> GetAxis pad_A 1 e' = (0, [])
          \<and> PreSetAxis pad_A 1 e' = Inr e')"
proof -
  have held: "GetButton pad_A 5 engine_held = (True, [])"
    "stored_hat engine_held pad_A 0 = Some 5"
    "GetAxis pad_A 0 engine_held = (f32_0_9, [])"
    "GetMotion pad_A 0 engine_held = Inr (tilted, [])"
    by (simp_all add: engine_held_eq GetButton_def stored_hat_def GetAxis_def GetMotion_def
        at_key_def)
  from PreSet_keeps_present_entry [OF engine_held_pad_A, of 5]
    PreSet_keeps_present_entry [OF engine_held_pad_A, of 0]
    PreSet_keeps_present_entry [OF engine_held_pad_A, of 1]
  show ?thesis by (simp add: held)
qed

text \<open>
  The claim as it is written, that a \<open>PreSet\<close> registers the default-valued entry when
  there is none, fails for a pad that is not registered: \<open>PreSetButton\<close> on a new engine
  ends with the fault of \<^verbatim>\<open>at\<close> and registers nothing.
\<close>

theorem PreSet_unknown_pad_counterexample:
  "stored_button fresh_engine pad_A 0 = None
   \<and> PreSetButton pad_A 0 fresh_engine = Inl OutOfRange"
  by (simp add: stored_button_def fresh_engine_def new_engine_def PreSetButton_def
      with_controller_def at_key_def)

subsection \<open>What the mutators leave alone\<close>

lemma only_table_changed_refl: "only_table_changed e e"
  by (simp add: only_table_changed_def)

lemma only_table_changed_trans:
  "only_table_changed e e1 \<Longrightarrow> only_table_changed e1 e2 \<Longrightarrow> only_table_changed e e2"
  by (simp add: only_table_changed_def)

lemma only_table_changed_pads:
  "only_table_changed e e' \<Longrightarrow>
   (map_of (controller_list e') identifier = None) = (map_of (controller_list e) identifier = None)"
  by (simp add: only_table_changed_def)

lemma only_table_changed_known:
  assumes "only_table_changed e e'" and "map_of (controller_list e) identifier \<noteq> None"
  shows "\<exists>c. map_of (controller_list e') identifier = Some c"
proof -
  from assms have "map_of (controller_list e') identifier \<noteq> None"
    by (simp add: only_table_changed_pads)
  then show ?thesis by blast
qed

lemma write_back_only_table:
  "map_of (controller_list e) identifier = Some c \<Longrightarrow>
   only_table_changed e (e\<lparr>controller_list := insert_or_assign identifier c' (controller_list e)\<rparr>)"
  by (simp add: only_table_changed_def map_of_insert_or_assign)

lemma with_controller_only_table:
  "with_controller identifier f e = Inr e' \<Longrightarrow> only_table_changed e e'"
  by (auto simp: with_controller_def at_key_def write_back_only_table split: option.splits)

lemma PreSet_only_table:
  "PreSetButton identifier idx e = Inr e' \<Longrightarrow> only_table_changed e e'"
  "PreSetHatButton identifier idx e = Inr e' \<Longrightarrow> only_table_changed e e'"
  "PreSetAxis identifier idx e = Inr e' \<Longrightarrow> only_table_changed e e'"
  "PreSetMotion identifier idx e = Inr e' \<Longrightarrow> only_table_changed e e'"
  by (simp_all add: PreSetButton_def PreSetHatButton_def PreSetAxis_def PreSetMotion_def
      with_controller_only_table)

lemma known_or_fault:
  "with_controller identifier f e = Inr e1 \<Longrightarrow> \<exists>c. map_of (controller_list e) identifier = Some c"
  by (auto simp: with_controller_def at_key_def split: option.splits)

lemma SetButton_only_table:
  assumes "SetButton identifier idx value e = Inr (e', events)"
  shows "only_table_changed e e'"
proof -
  from assms obtain c where c: "map_of (controller_list e) identifier = Some c"
    by (auto simp: SetButton_def split: sum.splits dest: known_or_fault)
  show ?thesis
  proof (cases "configuring e")
    case True
    with assms c show ?thesis
      by (auto simp: SetButton_configuring write_back_only_table only_table_changed_refl
          split: if_splits)
  next
    case False
    with assms c show ?thesis
      by (auto simp: SetButton_normal write_back_only_table)
  qed
qed

lemma SetHatButton_only_table:
  assumes "SetHatButton identifier idx value e = Inr (e', events)"
  shows "only_table_changed e e'"
proof -
  from assms obtain c where c: "map_of (controller_list e) identifier = Some c"
    by (auto simp: SetHatButton_def split: sum.splits dest: known_or_fault)
  show ?thesis
  proof (cases "configuring e")
    case True
    with assms c show ?thesis
      by (auto simp: SetHatButton_configuring only_table_changed_refl)
  next
    case False
    with assms c show ?thesis
      by (auto simp: SetHatButton_normal write_back_only_table)
  qed
qed

lemma SetAxis_only_table:
  assumes "SetAxis identifier idx value e = Inr (e', events)"
  shows "only_table_changed e e'"
proof -
  from assms obtain c where c: "map_of (controller_list e) identifier = Some c"
    by (auto simp: SetAxis_def split: sum.splits dest: known_or_fault)
  show ?thesis
  proof (cases "configuring e")
    case True
    with assms c show ?thesis
      by (auto simp: SetAxis_configuring only_table_changed_refl)
  next
    case False
    with assms c show ?thesis
      by (auto simp: SetAxis_normal write_back_only_table)
  qed
qed

lemma SetBattery_only_table:
  assumes "SetBattery identifier value e = Inr (e', events)"
  shows "only_table_changed e e'"
proof -
  from assms obtain c where c: "map_of (controller_list e) identifier = Some c"
    by (auto simp: SetBattery_def split: sum.splits dest: known_or_fault)
  show ?thesis
  proof (cases "configuring e")
    case True
    with assms c show ?thesis
      by (auto simp: SetBattery_configuring only_table_changed_refl)
  next
    case False
    with assms c show ?thesis
      by (auto simp: SetBattery_normal write_back_only_table)
  qed
qed

lemma SetMotion_only_table:
  assumes "SetMotion identifier idx value e = Inr (e', events)"
  shows "only_table_changed e e'"
proof -
  from assms obtain c where c: "map_of (controller_list e) identifier = Some c"
    by (auto simp: SetMotion_def split: sum.splits dest: known_or_fault)
  show ?thesis
  proof (cases "configuring e")
    case True
    with assms c SetMotion_configuring [OF True c, of idx "value"] show ?thesis
      by (auto simp: only_table_changed_refl)
  next
    case False
    with assms c show ?thesis
      by (auto simp: SetMotion_normal write_back_only_table)
  qed
qed

lemma and_then_Inr:
  "and_then r f = Inr (e2, events) \<longleftrightarrow>
     (\<exists>e1 events1 events2. r = Inr (e1, events1) \<and> f e1 = Inr (e2, events2) \<and>
        events = events1 @ events2)"
  by (auto simp: and_then_def split: sum.splits prod.splits)

lemma for_each_only_table:
  assumes "\<And>x e1 e2 events. x \<in> set xs \<Longrightarrow> body x e1 = Inr (e2, events) \<Longrightarrow> only_table_changed e1 e2"
  shows "for_each body xs e = Inr (e', events) \<Longrightarrow> only_table_changed e e'"
  using assms
proof (induction xs arbitrary: e events)
  case Nil
  then show ?case by (simp add: only_table_changed_refl)
next
  case (Cons x xs)
  from Cons.prems(1) obtain e1 events1 events2 where
    first: "body x e = Inr (e1, events1)" and rest: "for_each body xs e1 = Inr (e', events2)"
    by (auto simp: and_then_Inr)
  have "only_table_changed e e1" using Cons.prems(2) [of x e e1 events1] first by simp
  moreover have "only_table_changed e1 e'"
  proof (rule Cons.IH [OF rest])
    fix y ea eb evs
    assume "y \<in> set xs" and "body y ea = Inr (eb, evs)"
    then show "only_table_changed ea eb" using Cons.prems(2) [of y ea eb evs] by simp
  qed
  ultimately show ?case by (rule only_table_changed_trans)
qed

lemma ResetButtonState_only_table:
  assumes "ResetButtonState e = Inr (e', events)"
  shows "only_table_changed e e'"
proof (rule for_each_only_table [OF _ assms [unfolded ResetButtonState_def]])
  fix x e1 e2 events
  assume "and_then
            (for_each (\<lambda>button. SetButton (fst x) (fst button) False) (buttons (snd x)) e1)
            (for_each (\<lambda>button. SetHatButton (fst x) (fst button) 0) (hat_buttons (snd x)))
          = Inr (e2, events)"
  then obtain em events1 events2 where
    b: "for_each (\<lambda>button. SetButton (fst x) (fst button) False) (buttons (snd x)) e1 = Inr (em, events1)"
    and h: "for_each (\<lambda>button. SetHatButton (fst x) (fst button) 0) (hat_buttons (snd x)) em = Inr (e2, events2)"
    by (auto simp: and_then_Inr)
  have "only_table_changed e1 em"
    by (rule for_each_only_table [OF _ b]) (rule SetButton_only_table)
  moreover have "only_table_changed em e2"
    by (rule for_each_only_table [OF _ h]) (rule SetHatButton_only_table)
  ultimately show "only_table_changed e1 e2" by (rule only_table_changed_trans)
qed

lemma ResetAnalogState_only_table:
  assumes "ResetAnalogState e = Inr (e', events)"
  shows "only_table_changed e e'"
proof (rule for_each_only_table [OF _ assms [unfolded ResetAnalogState_def]])
  fix x e1 e2 events
  assume a: "for_each (\<lambda>axis. SetAxis (fst x) (fst axis) 0) (axes (snd x)) e1 = Inr (e2, events)"
  show "only_table_changed e1 e2"
    by (rule for_each_only_table [OF _ a]) (rule SetAxis_only_table)
qed

subsection \<open>Runs: pads stay known, keys grow\<close>

lemma mutated_only_table:
  assumes "\<And>e' events. r = Inr (e', events) \<Longrightarrow> only_table_changed e e'"
  shows "only_table_changed e (mutated e r)"
  using assms by (auto simp: mutated_def only_table_changed_refl split: sum.splits)

lemma registered_only_table:
  assumes "\<And>e'. r = Inr e' \<Longrightarrow> only_table_changed e e'"
  shows "only_table_changed e (registered e r)"
  using assms by (auto simp: registered_def only_table_changed_refl split: sum.splits)

text \<open>A call forgets no pad, and only a subscription returns a key and moves the counter.\<close>

lemma perform_pads:
  assumes "c \<noteq> CallPreSetController identifier"
  shows "(map_of (controller_list (fst (perform c e))) identifier = None) =
         (map_of (controller_list e) identifier = None)"
proof -
  have table: "only_table_changed e e' \<Longrightarrow>
      (map_of (controller_list e') identifier = None) =
      (map_of (controller_list e) identifier = None)" for e'
    by (rule only_table_changed_pads)
  show ?thesis
  proof (cases c)
    case (CallPreSetController x)
    with assms show ?thesis
      by (auto simp: PreSetController_def map_of_try_emplace split: option.splits)
  next
    case (CallSetCallback x)
    then show ?thesis by (simp add: SetCallback_def)
  next
    case (CallDeleteCallback x)
    then show ?thesis by (auto simp: DeleteCallback_def split: option.splits)
  next
    case (CallPreSetButton x y)
    then show ?thesis
      using table [OF registered_only_table, of "PreSetButton x y e"]
      by (simp add: PreSet_only_table)
  next
    case (CallPreSetHatButton x y)
    then show ?thesis
      using table [OF registered_only_table, of "PreSetHatButton x y e"]
      by (simp add: PreSet_only_table)
  next
    case (CallPreSetAxis x y)
    then show ?thesis
      using table [OF registered_only_table, of "PreSetAxis x y e"]
      by (simp add: PreSet_only_table)
  next
    case (CallPreSetMotion x y)
    then show ?thesis
      using table [OF registered_only_table, of "PreSetMotion x y e"]
      by (simp add: PreSet_only_table)
  next
    case (CallSetButton x y z)
    then show ?thesis
      using table [OF mutated_only_table, of "SetButton x y z e"]
      by (simp add: SetButton_only_table)
  next
    case (CallSetHatButton x y z)
    then show ?thesis
      using table [OF mutated_only_table, of "SetHatButton x y z e"]
      by (simp add: SetHatButton_only_table)
  next
    case (CallSetAxis x y z)
    then show ?thesis
      using table [OF mutated_only_table, of "SetAxis x y z e"]
      by (simp add: SetAxis_only_table)
  next
    case (CallSetBattery x y)
    then show ?thesis
      using table [OF mutated_only_table, of "SetBattery x y e"]
      by (simp add: SetBattery_only_table)
  next
    case (CallSetMotion x y z)
    then show ?thesis
      using table [OF mutated_only_table, of "SetMotion x y z e"]
      by (simp add: SetMotion_only_table)
  next
    case CallResetButtonState
    then show ?thesis
      using table [OF mutated_only_table, of "ResetButtonState e"]
      by (simp add: ResetButtonState_only_table)
  next
    case CallResetAnalogState
    then show ?thesis
      using table [OF mutated_only_table, of "ResetAnalogState e"]
      by (simp add: ResetAnalogState_only_table)
  qed (simp_all add: BeginConfiguration_def EndConfiguration_def SetMappingCallback_def)
qed

lemma perform_keeps_pad:
  assumes "map_of (controller_list e) identifier \<noteq> None"
  shows "map_of (controller_list (fst (perform c e))) identifier \<noteq> None"
proof (cases "c = CallPreSetController identifier")
  case True
  then show ?thesis
    by (simp add: PreSetController_def map_of_try_emplace split: option.splits)
next
  case False
  with assms show ?thesis by (simp add: perform_pads)
qed

lemma run_keeps_pad:
  "map_of (controller_list e) identifier \<noteq> None \<Longrightarrow>
   map_of (controller_list (run cs e)) identifier \<noteq> None"
proof (induction cs arbitrary: e)
  case Nil
  then show ?case by simp
next
  case (Cons c cs)
  from Cons.IH [OF perform_keeps_pad [OF Cons.prems]] show ?case by simp
qed

lemma run_keeps_unknown:
  "CallPreSetController identifier \<notin> set cs \<Longrightarrow>
   map_of (controller_list e) identifier = None \<Longrightarrow>
   map_of (controller_list (run cs e)) identifier = None"
proof (induction cs arbitrary: e)
  case Nil
  then show ?case by simp
next
  case (Cons c cs)
  from Cons.prems have "c \<noteq> CallPreSetController identifier" by auto
  from perform_pads [OF this, of e] Cons.prems(2)
  have "map_of (controller_list (fst (perform c e))) identifier = None" by simp
  with Cons.IH [of "fst (perform c e)"] Cons.prems(1) show ?case by simp
qed

lemma perform_key:
  "snd (perform c e) = (if is_subscription c then Some (last_callback_key e) else None) \<and>
   last_callback_key (fst (perform c e)) =
     (if is_subscription c then increment (last_callback_key e) else last_callback_key e)"
proof -
  have table: "only_table_changed e e' \<Longrightarrow> last_callback_key e' = last_callback_key e" for e'
    by (simp add: only_table_changed_def)
  show ?thesis
  proof (cases c)
    case (CallPreSetController x)
    then show ?thesis by (simp add: PreSetController_def)
  next
    case (CallSetCallback x)
    then show ?thesis by (simp add: SetCallback_def)
  next
    case (CallDeleteCallback x)
    then show ?thesis by (simp add: DeleteCallback_def split: option.splits)
  next
    case (CallPreSetButton x y)
    then show ?thesis
      using table [OF registered_only_table, of "PreSetButton x y e"]
      by (simp add: PreSet_only_table)
  next
    case (CallPreSetHatButton x y)
    then show ?thesis
      using table [OF registered_only_table, of "PreSetHatButton x y e"]
      by (simp add: PreSet_only_table)
  next
    case (CallPreSetAxis x y)
    then show ?thesis
      using table [OF registered_only_table, of "PreSetAxis x y e"]
      by (simp add: PreSet_only_table)
  next
    case (CallPreSetMotion x y)
    then show ?thesis
      using table [OF registered_only_table, of "PreSetMotion x y e"]
      by (simp add: PreSet_only_table)
  next
    case (CallSetButton x y z)
    then show ?thesis
      using table [OF mutated_only_table, of "SetButton x y z e"]
      by (simp add: SetButton_only_table)
  next
    case (CallSetHatButton x y z)
    then show ?thesis
      using table [OF mutated_only_table, of "SetHatButton x y z e"]
      by (simp add: SetHatButton_only_table)
  next
    case (CallSetAxis x y z)
    then show ?thesis
      using table [OF mutated_only_table, of "SetAxis x y z e"]
      by (simp add: SetAxis_only_table)
  next
    case (CallSetBattery x y)
    then show ?thesis
      using table [OF mutated_only_table, of "SetBattery x y e"]
      by (simp add: SetBattery_only_table)
  next
    case (CallSetMotion x y z)
    then show ?thesis
      using table [OF mutated_only_table, of "SetMotion x y z e"]
      by (simp add: SetMotion_only_table)
  next
    case CallResetButtonState
    then show ?thesis
      using table [OF mutated_only_table, of "ResetButtonState e"]
      by (simp add: ResetButtonState_only_table)
  next
    case CallResetAnalogState
    then show ?thesis
      using table [OF mutated_only_table, of "ResetAnalogState e"]
      by (simp add: ResetAnalogState_only_table)
  qed (simp_all add: BeginConfiguration_def EndConfiguration_def SetMappingCallback_def)
qed

lemma issued_keys_length:
  "length (issued_keys cs e) = length (filter is_subscription cs)"
proof (induction cs arbitrary: e)
  case Nil
  then show ?case by simp
next
  case (Cons c cs)
  obtain e1 r where p: "perform c e = (e1, r)" by (cases "perform c e")
  with perform_key [of c e]
  have "r = (if is_subscription c then Some (last_callback_key e) else None)" by simp
  with p Cons.IH [of e1] show ?case by simp
qed

lemma issued_keys_consecutive:
  assumes "last_callback_key e + int (length (filter is_subscription cs)) \<le> INT_MAX + 1"
  shows "issued_keys cs e =
           map (\<lambda>i. last_callback_key e + int i) [0..<length (filter is_subscription cs)]"
  using assms
proof (induction cs arbitrary: e)
  case Nil
  then show ?case by simp
next
  case (Cons c cs)
  define n where "n = length (filter is_subscription cs)"
  obtain e1 r where p: "perform c e = (e1, r)" by (cases "perform c e")
  with perform_key [of c e]
  have r: "r = (if is_subscription c then Some (last_callback_key e) else None)"
    and k: "last_callback_key e1 =
      (if is_subscription c then increment (last_callback_key e) else last_callback_key e)"
    by simp_all
  show ?case
  proof (cases "is_subscription c")
    case False
    with r k p Cons.prems Cons.IH [of e1] show ?thesis by simp
  next
    case True
    with Cons.prems have bound: "last_callback_key e + int n \<le> INT_MAX" by (simp add: n_def)
    have next_key: "n \<noteq> 0 \<Longrightarrow> increment (last_callback_key e) = last_callback_key e + 1"
      using bound by (simp add: increment_def)
    have "last_callback_key e1 + int n \<le> INT_MAX + 1"
    proof (cases "n = 0")
      case True
      then show ?thesis using k \<open>is_subscription c\<close> bound
        by (simp add: increment_def INT_MIN_def INT_MAX_def)
    next
      case False
      with next_key k \<open>is_subscription c\<close> bound show ?thesis by simp
    qed
    from Cons.IH [of e1] this have "issued_keys cs e1 = map (\<lambda>i. last_callback_key e1 + int i) [0..<n]"
      by (simp add: n_def)
    also have "\<dots> = map (\<lambda>i. last_callback_key e + int (Suc i)) [0..<n]"
    proof (cases "n = 0")
      case True
      then show ?thesis by simp
    next
      case False
      with next_key k \<open>is_subscription c\<close> show ?thesis by simp
    qed
    finally have "issued_keys cs e1 = map (\<lambda>i. last_callback_key e + int (Suc i)) [0..<n]" .
    with p r True show ?thesis
      unfolding n_def [symmetric] by (simp add: n_def [symmetric] map_upt_Suc del: upt_Suc)
  qed
qed

lemma consecutive_keys_increase:
  "sorted_wrt (<) (map (\<lambda>i. k + int i) [0..<n]) \<and> distinct (map (\<lambda>i. k + int i) [0..<n])"
proof -
  have "sorted_wrt (<) (map (\<lambda>i. k + int i) [0..<n])"
    by (simp add: sorted_wrt_map)
  then show ?thesis by (simp add: strict_sorted_iff)
qed

text \<open>
  Claim C6, as the code has it. Every \<open>SetCallback\<close> of a run returns a key. As long as
  the counter of keys does not pass the largest \<^verbatim>\<open>int\<close>, the keys are the successive
  values of the counter, so they are strictly increasing in the order of the calls: each is
  greater than every key returned before it, and no key is handed out twice, whatever was
  deleted in between.
\<close>

theorem SetCallback_keys_increase:
  "length (issued_keys cs e) = length (filter is_subscription cs) \<and>
   (last_callback_key e + int (length (filter is_subscription cs)) \<le> INT_MAX + 1 \<longrightarrow>
      issued_keys cs e =
        map (\<lambda>i. last_callback_key e + int i) [0..<length (filter is_subscription cs)] \<and>
      sorted_wrt (<) (issued_keys cs e) \<and> distinct (issued_keys cs e))"
  using consecutive_keys_increase [of "last_callback_key e" "length (filter is_subscription cs)"]
  by (simp add: issued_keys_length issued_keys_consecutive)

lemma engine_subscribed_eq:
  "engine_subscribed =
     \<lparr>controller_list = [], callback_list = [(0, poller_A5), (1, poller_A6), (2, poller_B5)],
      mapping_callback = \<lparr>on_data = False\<rparr>, configuring = False, last_callback_key = 3,
      input_engine = ''sdl'', GetHatButtonName = hat_names\<rparr>"
  by (simp add: engine_subscribed_def fresh_engine_def new_engine_def SetCallback_def
      increment_def INT_MAX_def)

theorem SetCallback_keys_increase_witness:
  "length (issued_keys subscribe_calls fresh_engine) = 4
   \<and> issued_keys subscribe_calls fresh_engine = [0, 1, 2, 3]
   \<and> sorted_wrt (<) (issued_keys subscribe_calls fresh_engine)
   \<and> distinct (issued_keys subscribe_calls fresh_engine)"
proof -
  have "last_callback_key fresh_engine + int (length (filter is_subscription subscribe_calls))
      \<le> INT_MAX + 1"
    by (simp add: subscribe_calls_def fresh_engine_def new_engine_def INT_MAX_def)
  moreover have "map (\<lambda>i. last_callback_key fresh_engine + int i)
      [0..<length (filter is_subscription subscribe_calls)] = [0, 1, 2, 3]"
    by (simp add: subscribe_calls_def fresh_engine_def new_engine_def upt_conv_Cons)
  moreover have "length (filter is_subscription subscribe_calls) = 4"
    by (simp add: subscribe_calls_def)
  ultimately show ?thesis
    using SetCallback_keys_increase [of subscribe_calls fresh_engine] by simp
qed

text \<open>
  The claim as it is written fails once the counter has reached the largest \<^verbatim>\<open>int\<close>,
  which it does after 2147483647 subscriptions to a new engine: the next two calls of
  \<open>SetCallback\<close> return 2147483647 and then -2147483648, a key that is not greater than the
  keys returned before it.
\<close>

lemma counter_after_subscriptions:
  assumes "last_callback_key e + int n \<le> INT_MAX"
  shows "last_callback_key (run (replicate n (CallSetCallback poller)) e) =
           last_callback_key e + int n"
  using assms
proof (induction n arbitrary: e)
  case 0
  then show ?case by simp
next
  case (Suc n)
  define e1 where "e1 = fst (perform (CallSetCallback poller) e)"
  from Suc.prems have key: "last_callback_key e1 = last_callback_key e + 1"
    by (simp add: e1_def SetCallback_def increment_def)
  have step: "run (replicate (Suc n) (CallSetCallback poller)) e =
      run (replicate n (CallSetCallback poller)) e1"
    by (simp add: e1_def)
  from Suc.IH [of e1] Suc.prems key show ?case unfolding step by simp
qed

lemma engine_exhausted_key: "last_callback_key engine_exhausted = INT_MAX"
proof -
  have "last_callback_key fresh_engine + int 2147483647 \<le> INT_MAX"
    by (simp add: fresh_engine_def new_engine_def INT_MAX_def)
  from counter_after_subscriptions [OF this, of poller_B5] show ?thesis
    unfolding engine_exhausted_def by (simp add: fresh_engine_def new_engine_def INT_MAX_def)
qed

lemma two_subscriptions:
  "issued_keys [CallSetCallback first, CallSetCallback second] e =
     [last_callback_key e, increment (last_callback_key e)]"
  by (simp add: SetCallback_def)

theorem SetCallback_wraps_counterexample:
  "last_callback_key engine_exhausted = 2147483647
   \<and> issued_keys [CallSetCallback poller_A5, CallSetCallback poller_A6] engine_exhausted =
       [2147483647, - 2147483648]"
  unfolding two_subscriptions engine_exhausted_key
  by (simp add: increment_def INT_MAX_def INT_MIN_def)

subsection \<open>The registry of pollers\<close>

lemma erase_found:
  "map_of m k = Some v \<Longrightarrow>
   \<exists>before after. m = before @ (k, v) # after \<and> k \<notin> fst ` set before \<and>
     erase k m = before @ after"
proof (induction m)
  case Nil
  then show ?case by simp
next
  case (Cons p m)
  obtain k' v' where p: "p = (k', v')" by (cases p)
  show ?case
  proof (cases "k' = k")
    case True
    with Cons.prems p have "p # m = [] @ (k, v) # m" "erase k (p # m) = [] @ m" by simp_all
    then show ?thesis by (metis empty_iff image_empty list.set(1))
  next
    case False
    with Cons.prems p have "map_of m k = Some v" by simp
    from Cons.IH [OF this] obtain before after where
      m: "m = before @ (k, v) # after" and fresh: "k \<notin> fst ` set before"
      and gone: "erase k m = before @ after" by blast
    from m have "p # m = (p # before) @ (k, v) # after" by simp
    moreover from fresh False p have "k \<notin> fst ` set (p # before)" by auto
    moreover from gone False p have "erase k (p # m) = (p # before) @ after" by simp
    ultimately show ?thesis by blast
  qed
qed

text \<open>
  Claim C8. \<open>DeleteCallback\<close> with a key that is not in the registry logs an error and
  returns the engine unchanged; with a key that is, it logs nothing and removes the entry
  of that key and no other: the entries before and after it stay, in their order, every
  other key finds what it found, and (keys being unique) the key finds nothing.
\<close>

theorem DeleteCallback_removes_named_only:
  "(case map_of (callback_list e) key of
      None \<Rightarrow> DeleteCallback key e = (e, [LogError (NonExistentCallback key)])
    | Some found \<Rightarrow>
        (\<exists>before after.
           callback_list e = before @ (key, found) # after \<and> key \<notin> fst ` set before \<and>
           DeleteCallback key e = (e\<lparr>callback_list := before @ after\<rparr>, []) \<and>
           (\<forall>other. other \<noteq> key \<longrightarrow>
              map_of (before @ after) other = map_of (callback_list e) other) \<and>
           (distinct (map fst (callback_list e)) \<longrightarrow> map_of (before @ after) key = None)))"
proof (cases "map_of (callback_list e) key")
  case None
  then show ?thesis by (simp add: DeleteCallback_def)
next
  case (Some found)
  from erase_found [OF Some] obtain before after where
    l: "callback_list e = before @ (key, found) # after" and fresh: "key \<notin> fst ` set before"
    and gone: "erase key (callback_list e) = before @ after" by blast
  have del: "DeleteCallback key e = (e\<lparr>callback_list := before @ after\<rparr>, [])"
    using Some gone by (simp add: DeleteCallback_def)
  have others: "map_of (before @ after) other = map_of (callback_list e) other"
    if "other \<noteq> key" for other
    using map_of_erase_other [OF that, of "callback_list e"] gone by simp
  have absent: "map_of (before @ after) key = None" if "distinct (map fst (callback_list e))"
    using map_of_erase_distinct [OF that, of key key] gone by simp
  from l fresh del others absent show ?thesis unfolding Some by (simp only: option.case) blast
qed

theorem DeleteCallback_removes_named_only_witness:
  "DeleteCallback 7 engine_subscribed = (engine_subscribed, [LogError (NonExistentCallback 7)])
   \<and> DeleteCallback 1 engine_subscribed =
       (engine_subscribed\<lparr>callback_list := [(0, poller_A5), (2, poller_B5)]\<rparr>, [])"
  using DeleteCallback_removes_named_only [where e = engine_subscribed and key = 7]
    DeleteCallback_removes_named_only [where e = engine_subscribed and key = 1]
  by (simp add: engine_subscribed_eq DeleteCallback_def)

text \<open>
  Claim C10. A pad that no call of \<open>PreSetController\<close> registered is not in the table,
  whatever else was called since the engine was made. On a pad that is not in the table,
  each of the four \<open>PreSet\<close> and the five \<open>Set\<close> calls ends with
  \<^verbatim>\<open>std::out_of_range\<close>: no entry is made and nothing is logged. Once the pad is
  registered, none of them faults, whatever calls were made in between.
\<close>

theorem unregistered_pad_faults:
  "(CallPreSetController identifier \<notin> set earlier \<longrightarrow>
      map_of (controller_list (run earlier (new_engine name hats))) identifier = None)
   \<and> (map_of (controller_list e) identifier = None \<longrightarrow>
      PreSetButton identifier idx e = Inl OutOfRange \<and>
      PreSetHatButton identifier idx e = Inl OutOfRange \<and>
      PreSetAxis identifier idx e = Inl OutOfRange \<and>
      PreSetMotion identifier idx e = Inl OutOfRange \<and>
      SetButton identifier idx pressed e = Inl OutOfRange \<and>
      SetHatButton identifier idx hat_mask e = Inl OutOfRange \<and>
      SetAxis identifier idx deflection e = Inl OutOfRange \<and>
      SetBattery identifier level e = Inl OutOfRange \<and>
      SetMotion identifier idx sample e = Inl OutOfRange)
   \<and> (\<not> isl (PreSetButton identifier idx (run later (PreSetController identifier e))) \<and>
      \<not> isl (PreSetHatButton identifier idx (run later (PreSetController identifier e))) \<and>
      \<not> isl (PreSetAxis identifier idx (run later (PreSetController identifier e))) \<and>
      \<not> isl (PreSetMotion identifier idx (run later (PreSetController identifier e))) \<and>
      \<not> isl (SetButton identifier idx pressed (run later (PreSetController identifier e))) \<and>
      \<not> isl (SetHatButton identifier idx hat_mask (run later (PreSetController identifier e))) \<and>
      \<not> isl (SetAxis identifier idx deflection (run later (PreSetController identifier e))) \<and>
      \<not> isl (SetBattery identifier level (run later (PreSetController identifier e))) \<and>
      \<not> isl (SetMotion identifier idx sample (run later (PreSetController identifier e))))"
proof -
  have unknown: "PreSetButton identifier idx e = Inl OutOfRange \<and>
      PreSetHatButton identifier idx e = Inl OutOfRange \<and>
      PreSetAxis identifier idx e = Inl OutOfRange \<and>
      PreSetMotion identifier idx e = Inl OutOfRange \<and>
      SetButton identifier idx pressed e = Inl OutOfRange \<and>
      SetHatButton identifier idx hat_mask e = Inl OutOfRange \<and>
      SetAxis identifier idx deflection e = Inl OutOfRange \<and>
      SetBattery identifier level e = Inl OutOfRange \<and>
      SetMotion identifier idx sample e = Inl OutOfRange"
    if "map_of (controller_list e) identifier = None"
    using that
    by (simp add: PreSetButton_def PreSetHatButton_def PreSetAxis_def PreSetMotion_def
        SetButton_def SetHatButton_def SetAxis_def SetBattery_def SetMotion_def
        with_controller_unknown)
  define e1 where "e1 = run later (PreSetController identifier e)"
  have "map_of (controller_list (PreSetController identifier e)) identifier \<noteq> None"
    by (simp add: PreSetController_def map_of_try_emplace split: option.splits)
  then have "map_of (controller_list e1) identifier \<noteq> None"
    unfolding e1_def by (rule run_keeps_pad)
  then obtain c where c: "map_of (controller_list e1) identifier = Some c" by blast
  have pre: "\<not> isl (PreSetButton identifier idx e1)" "\<not> isl (PreSetHatButton identifier idx e1)"
    "\<not> isl (PreSetAxis identifier idx e1)" "\<not> isl (PreSetMotion identifier idx e1)"
    by (simp_all add: PreSetButton_known [OF c] PreSetHatButton_known [OF c]
        PreSetAxis_known [OF c] PreSetMotion_known [OF c])
  have set: "\<not> isl (SetButton identifier idx pressed e1)"
    "\<not> isl (SetHatButton identifier idx hat_mask e1)"
    "\<not> isl (SetAxis identifier idx deflection e1)"
    "\<not> isl (SetBattery identifier level e1)"
    "\<not> isl (SetMotion identifier idx sample e1)"
  proof -
    show "\<not> isl (SetButton identifier idx pressed e1)"
      by (cases "configuring e1") (simp_all add: SetButton_normal [OF _ c] SetButton_configuring [OF _ c])
    show "\<not> isl (SetHatButton identifier idx hat_mask e1)"
      by (cases "configuring e1")
        (simp_all add: SetHatButton_normal [OF _ c] SetHatButton_configuring [OF _ c])
    show "\<not> isl (SetAxis identifier idx deflection e1)"
      by (cases "configuring e1") (simp_all add: SetAxis_normal [OF _ c] SetAxis_configuring [OF _ c])
    show "\<not> isl (SetBattery identifier level e1)"
      by (cases "configuring e1")
        (simp_all add: SetBattery_normal [OF _ c] SetBattery_configuring [OF _ c])
    show "\<not> isl (SetMotion identifier idx sample e1)"
    proof (cases "configuring e1")
      case True
      from SetMotion_configuring [OF True c, of idx sample] show ?thesis by auto
    next
      case False
      then show ?thesis by (simp add: SetMotion_normal [OF _ c])
    qed
  qed
  have never: "map_of (controller_list (run earlier (new_engine name hats))) identifier = None"
    if "CallPreSetController identifier \<notin> set earlier"
    using that by (rule run_keeps_unknown) (simp add: new_engine_def)
  from never unknown pre set show ?thesis unfolding e1_def by blast
qed

theorem unregistered_pad_faults_witness:
  "map_of (controller_list (run [CallPreSetController pad_B, CallSetButton pad_A 5 True]
      (new_engine ''sdl'' hat_names))) pad_A = None
   \<and> map_of (controller_list fresh_engine) pad_A = None
   \<and> SetButton pad_A 5 True fresh_engine = Inl OutOfRange
   \<and> PreSetButton pad_A 5 fresh_engine = Inl OutOfRange
   \<and> \<not> isl (SetButton pad_A 5 True (run [CallBeginConfiguration] (PreSetController pad_A fresh_engine)))"
  using unregistered_pad_faults [of pad_A "[CallPreSetController pad_B, CallSetButton pad_A 5 True]"
      "''sdl''" hat_names fresh_engine 5 True _ _ _ _ "[CallBeginConfiguration]"]
  by (simp add: fresh_engine_def new_engine_def pad_A_def pad_B_def)

subsection \<open>Reading the traces of the mutators\<close>

lemma on_change_keys_append:
  "on_change_keys (xs @ ys) = on_change_keys xs @ on_change_keys ys"
  by (induction xs rule: on_change_keys.induct) simp_all

lemma on_data_events_append:
  "on_data_events (xs @ ys) = on_data_events xs @ on_data_events ys"
  by (induction xs rule: on_data_events.induct) simp_all

lemma notify_pollers_Cons:
  "notify_pollers ((key, poller) # rest) identifier ty idx =
     (if (identifier' poller, type poller, index poller) = (identifier, ty, idx) \<and>
         on_change (callback poller)
      then [OnChange key] else []) @ notify_pollers rest identifier ty idx"
  by (simp add: IsInputIdentifierEqual_def)

lemma on_change_keys_notify:
  "on_change_keys (notify_pollers cl identifier ty idx) =
     map fst (filter (\<lambda>(key, poller).
        (identifier' poller, type poller, index poller) = (identifier, ty, idx) \<and>
        on_change (callback poller)) cl)"
proof (induction cl)
  case Nil
  then show ?case by simp
next
  case (Cons p cl)
  obtain key poller where p: "p = (key, poller)" by (cases p)
  show ?case unfolding p notify_pollers_Cons using Cons.IH by simp
qed

lemma on_data_events_notify: "on_data_events (notify_pollers cl identifier ty idx) = []"
proof (induction cl)
  case Nil
  then show ?case by simp
next
  case (Cons p cl)
  obtain key poller where p: "p = (key, poller)" by (cases p)
  show ?case unfolding p notify_pollers_Cons using Cons.IH by simp
qed

lemma on_change_keys_GetAxis: "on_change_keys (snd (GetAxis identifier axis e)) = []"
  by (simp add: GetAxis_def split: option.splits)

lemma on_data_events_GetAxis: "on_data_events (snd (GetAxis identifier axis e)) = []"
  by (simp add: GetAxis_def split: option.splits)

lemma on_change_keys_hat_direction:
  "on_change_keys (hat_direction d identifier button value e) = []"
  by (simp add: hat_direction_def GetHatButton_def Let_def split: option.splits)

text \<open>Whom a mutator notifies: the subscriptions that match its event.\<close>

lemma mutators_notify:
  assumes "map_of (controller_list e) identifier = Some controller"
  shows "(\<exists>e' events. SetButton identifier idx pressed e = Inr (e', events) \<and>
            on_change_keys events = matching_keys e identifier Button idx)
       \<and> (\<exists>e' events. SetHatButton identifier idx hat_mask e = Inr (e', events) \<and>
            on_change_keys events = matching_keys e identifier HatButton idx)
       \<and> (\<exists>e' events. SetAxis identifier idx deflection e = Inr (e', events) \<and>
            on_change_keys events = matching_keys e identifier Analog idx)
       \<and> (\<exists>e' events. SetBattery identifier level e = Inr (e', events) \<and>
            on_change_keys events = matching_keys e identifier Battery 0)
       \<and> (\<exists>e' events. SetMotion identifier idx sample e = Inr (e', events) \<and>
            on_change_keys events = matching_keys e identifier Motion idx)"
proof -
  note c = assms
  have button: "\<exists>e' events. SetButton identifier idx pressed e = Inr (e', events) \<and>
            on_change_keys events = matching_keys e identifier Button idx"
    by (cases "configuring e")
      (simp_all add: SetButton_normal [OF _ c] SetButton_configuring [OF _ c]
        on_change_keys_append on_change_keys_notify matching_keys_def)
  have hat: "\<exists>e' events. SetHatButton identifier idx hat_mask e = Inr (e', events) \<and>
            on_change_keys events = matching_keys e identifier HatButton idx"
    by (cases "configuring e")
      (simp_all add: SetHatButton_normal [OF _ c] SetHatButton_configuring [OF _ c]
        on_change_keys_append on_change_keys_notify matching_keys_def
        on_change_keys_hat_direction)
  have axis: "\<exists>e' events. SetAxis identifier idx deflection e = Inr (e', events) \<and>
            on_change_keys events = matching_keys e identifier Analog idx"
    by (cases "configuring e")
      (simp_all add: SetAxis_normal [OF _ c] SetAxis_configuring [OF _ c]
        on_change_keys_append on_change_keys_notify matching_keys_def on_change_keys_GetAxis)
  have battery: "\<exists>e' events. SetBattery identifier level e = Inr (e', events) \<and>
            on_change_keys events = matching_keys e identifier Battery 0"
    by (cases "configuring e")
      (simp_all add: SetBattery_normal [OF _ c] SetBattery_configuring [OF _ c]
        on_change_keys_notify matching_keys_def)
  have motion: "\<exists>e' events. SetMotion identifier idx sample e = Inr (e', events) \<and>
            on_change_keys events = matching_keys e identifier Motion idx"
  proof (cases "configuring e")
    case True
    from SetMotion_configuring [OF True c, of idx sample] show ?thesis
      by (auto simp: on_change_keys_append on_change_keys_notify matching_keys_def)
  next
    case False
    then show ?thesis
      by (simp add: SetMotion_normal [OF _ c] on_change_keys_notify matching_keys_def)
  qed
  from button hat axis battery motion show ?thesis by blast
qed

text \<open>
  Claim C5, as the code has it. For each of the five mutators on a known pad, the call
  returns and the notifiers called are those of the subscriptions whose device identity,
  input kind and input index equal the event's (the index of a battery event being 0),
  each once, and no other.
\<close>

theorem pollers_notified_iff_match:
  assumes "map_of (controller_list e) identifier = Some controller"
  shows "(\<exists>e' events. SetButton identifier idx pressed e = Inr (e', events) \<and>
            on_change_keys events = matching_keys e identifier Button idx)
       \<and> (\<exists>e' events. SetHatButton identifier idx hat_mask e = Inr (e', events) \<and>
            on_change_keys events = matching_keys e identifier HatButton idx)
       \<and> (\<exists>e' events. SetAxis identifier idx deflection e = Inr (e', events) \<and>
            on_change_keys events = matching_keys e identifier Analog idx)
       \<and> (\<exists>e' events. SetBattery identifier level e = Inr (e', events) \<and>
            on_change_keys events = matching_keys e identifier Battery 0)
       \<and> (\<exists>e' events. SetMotion identifier idx sample e = Inr (e', events) \<and>
            on_change_keys events = matching_keys e identifier Motion idx)"
  using assms by (rule mutators_notify)

lemma engine_polled_eq:
  "engine_polled =
     \<lparr>controller_list =
        [(pad_A, \<lparr>buttons = [(5, False)], hat_buttons = [(0, 0)], axes = [(0, 0), (3, 0)],
                  motions = [(0, zero_motion)], battery = BatteryNone\<rparr>),
         (pad_B, new_controller)],
      callback_list = [(0, poller_A5), (1, poller_A6), (2, poller_B5)],
      mapping_callback = \<lparr>on_data = False\<rparr>, configuring = False,
      last_callback_key = 3, input_engine = ''sdl'', GetHatButtonName = hat_names\<rparr>"
  by (simp add: engine_polled_def engine_A_eq PreSetController_def SetCallback_def increment_def
      INT_MAX_def
      pad_A_def pad_B_def)

lemma engine_polled_pads:
  "map_of (controller_list engine_polled) pad_A =
     Some \<lparr>buttons = [(5, False)], hat_buttons = [(0, 0)], axes = [(0, 0), (3, 0)],
           motions = [(0, zero_motion)], battery = BatteryNone\<rparr>"
  "map_of (controller_list engine_polled) pad_B = Some new_controller"
  by (simp_all add: engine_polled_eq pad_A_def pad_B_def)

theorem pollers_notified_iff_match_witness:
  "(\<exists>e' events. SetButton pad_A 5 True engine_polled = Inr (e', events) \<and>
      on_change_keys events = [0])
   \<and> (\<exists>e' events. SetButton pad_A 6 True engine_polled = Inr (e', events) \<and>
      on_change_keys events = [1])
   \<and> (\<exists>e' events. SetButton pad_B 5 True engine_polled = Inr (e', events) \<and>
      on_change_keys events = [2])"
proof -
  have keys: "matching_keys engine_polled pad_A Button 5 = [0]"
    "matching_keys engine_polled pad_A Button 6 = [1]"
    "matching_keys engine_polled pad_B Button 5 = [2]"
    by (simp_all add: matching_keys_def engine_polled_eq poller_A5_def poller_A6_def
        poller_B5_def pad_A_def pad_B_def)
  from pollers_notified_iff_match [OF engine_polled_pads(1), of 5 True]
    pollers_notified_iff_match [OF engine_polled_pads(1), of 6 True]
    pollers_notified_iff_match [OF engine_polled_pads(2), of 5 True]
  show ?thesis unfolding keys by blast
qed

text \<open>
  The claim as it is written, for every call of a mutator, fails on a pad that is not
  registered: a subscription matches the event of \<open>SetButton\<close> for button 5 of pad A, and
  the call ends with the fault of \<^verbatim>\<open>at\<close> before any notifier is called.
\<close>

theorem unregistered_pad_notifies_nobody_counterexample:
  "matching_keys engine_subscribed pad_A Button 5 = [0]
   \<and> SetButton pad_A 5 True engine_subscribed = Inl OutOfRange"
  by (simp add: matching_keys_def engine_subscribed_eq poller_A5_def poller_A6_def poller_B5_def
      pad_A_def pad_B_def SetButton_def with_controller_def at_key_def)

subsection \<open>Mode gating\<close>

text \<open>
  Claim C1. On a known pad and an index that has an entry, each \<open>Set\<close> returns, and the
  query that follows returns the written value if the engine is in normal mode and the
  value stored before the call if it is configuring. (The battery has no index.)
\<close>

theorem Set_writes_unless_configuring:
  assumes "map_of (controller_list e) identifier = Some controller"
  shows "(map_of (buttons controller) idx = Some old_button \<longrightarrow>
            (\<exists>e' events. SetButton identifier idx pressed e = Inr (e', events) \<and>
               GetButton identifier idx e' = (if configuring e then old_button else pressed, [])))
       \<and> (map_of (hat_buttons controller) idx = Some old_mask \<longrightarrow>
            (\<exists>e' events. SetHatButton identifier idx hat_mask e = Inr (e', events) \<and>
               GetHatButton identifier idx direction e' =
                 ((if configuring e then old_mask else hat_mask) AND direction \<noteq> 0, [])))
       \<and> (map_of (axes controller) idx = Some old_axis \<longrightarrow>
            (\<exists>e' events. SetAxis identifier idx deflection e = Inr (e', events) \<and>
               GetAxis identifier idx e' = (if configuring e then old_axis else deflection, [])))
       \<and> (\<exists>e' events. SetBattery identifier level e = Inr (e', events) \<and>
               GetBattery identifier e' = (if configuring e then battery controller else level, []))
       \<and> (map_of (motions controller) idx = Some old_motion \<longrightarrow>
            (\<exists>e' events. SetMotion identifier idx sample e = Inr (e', events) \<and>
               GetMotion identifier idx e' =
                 Inr (if configuring e then old_motion else sample, [])))"
proof -
  note c = assms
  have button: "\<exists>e' events. SetButton identifier idx pressed e = Inr (e', events) \<and>
      GetButton identifier idx e' = (if configuring e then old_button else pressed, [])"
    if "map_of (buttons controller) idx = Some old_button"
    using that c
    by (cases "configuring e")
      (simp_all add: SetButton_normal [OF _ c] SetButton_configuring [OF _ c] GetButton_def
        map_of_insert_or_assign map_of_try_emplace)
  have hat: "\<exists>e' events. SetHatButton identifier idx hat_mask e = Inr (e', events) \<and>
      GetHatButton identifier idx direction e' =
        ((if configuring e then old_mask else hat_mask) AND direction \<noteq> 0, [])"
    if "map_of (hat_buttons controller) idx = Some old_mask"
    using that c
    by (cases "configuring e")
      (simp_all add: SetHatButton_normal [OF _ c] SetHatButton_configuring [OF _ c]
        GetHatButton_def map_of_insert_or_assign)
  have axis: "\<exists>e' events. SetAxis identifier idx deflection e = Inr (e', events) \<and>
      GetAxis identifier idx e' = (if configuring e then old_axis else deflection, [])"
    if "map_of (axes controller) idx = Some old_axis"
    using that c
    by (cases "configuring e")
      (simp_all add: SetAxis_normal [OF _ c] SetAxis_configuring [OF _ c]
        GetAxis_def map_of_insert_or_assign)
  have battery: "\<exists>e' events. SetBattery identifier level e = Inr (e', events) \<and>
      GetBattery identifier e' = (if configuring e then battery controller else level, [])"
    using c
    by (cases "configuring e")
      (simp_all add: SetBattery_normal [OF _ c] SetBattery_configuring [OF _ c]
        GetBattery_def map_of_insert_or_assign)
  have motion: "\<exists>e' events. SetMotion identifier idx sample e = Inr (e', events) \<and>
      GetMotion identifier idx e' = Inr (if configuring e then old_motion else sample, [])"
    if m: "map_of (motions controller) idx = Some old_motion"
  proof (cases "configuring e")
    case True
    from SetMotion_configuring [OF True c, of idx sample] m c True show ?thesis
      by (auto simp: GetMotion_def at_key_def)
  next
    case False
    with m c show ?thesis
      by (simp add: SetMotion_normal [OF _ c] GetMotion_def at_key_def map_of_insert_or_assign)
  qed
  from button hat axis battery motion show ?thesis by blast
qed

lemma engine_configuring_eq:
  "engine_configuring =
     \<lparr>controller_list =
        [(pad_A, \<lparr>buttons = [(5, False)], hat_buttons = [(0, 0)], axes = [(0, 0), (3, 0)],
                  motions = [(0, zero_motion)], battery = BatteryNone\<rparr>)],
      callback_list = [], mapping_callback = \<lparr>on_data = True\<rparr>, configuring = True,
      last_callback_key = 0, input_engine = ''sdl'', GetHatButtonName = hat_names\<rparr>"
  by (simp add: engine_configuring_def engine_A_eq SetMappingCallback_def BeginConfiguration_def)

lemma engine_configuring_pad_A:
  "map_of (controller_list engine_configuring) pad_A =
     Some \<lparr>buttons = [(5, False)], hat_buttons = [(0, 0)], axes = [(0, 0), (3, 0)],
           motions = [(0, zero_motion)], battery = BatteryNone\<rparr>"
  "configuring engine_configuring" "on_data (mapping_callback engine_configuring)"
  "\<not> configuring engine_A" "callback_list engine_configuring = []"
  "input_engine engine_configuring = ''sdl''"
  by (simp_all add: engine_configuring_eq engine_A_eq)

theorem Set_writes_unless_configuring_witness:
  "(\<exists>e' events. SetAxis pad_A 3 f32_0_9 engine_A = Inr (e', events) \<and>
      GetAxis pad_A 3 e' = (f32_0_9, []))
   \<and> (\<exists>e' events. SetAxis pad_A 3 f32_0_9 engine_configuring = Inr (e', events) \<and>
      GetAxis pad_A 3 e' = (0, []))"
  using Set_writes_unless_configuring [OF engine_A_pad_A, where idx = 3 and old_axis = 0
      and deflection = f32_0_9]
    Set_writes_unless_configuring [OF engine_configuring_pad_A(1), where idx = 3 and old_axis = 0
      and deflection = f32_0_9]
  by (simp add: engine_configuring_pad_A)

subsection \<open>Mapping detection\<close>

text \<open>
  Claim C3, as the code has it. While the engine is configuring and a mapping observer is
  registered, \<open>SetAxis\<close> on a known pad emits one mapping event, carrying the incoming
  value, if the incoming value and the stored value (0.0 for an axis that has no entry)
  differ by half, and none otherwise. The difference is computed in binary32 and compared
  with 0.5: two numbers differ by half when their exact difference is \<open>1 / 2 - 1 / 2 ^ 26\<close>
  or more, since such a difference is rounded to 0.5 or more; a value that is no number
  or an infinity differs by half from every value.
\<close>

theorem axis_detected_from_half:
  assumes "configuring e" and "on_data (mapping_callback e)"
    and "map_of (controller_list e) identifier = Some controller"
  shows "\<exists>events. SetAxis identifier axis value e = Inr (e, events) \<and>
           on_data_events events =
             (if differs_by_half value (fst (GetAxis identifier axis e))
              then [new_mapping_data\<lparr>engine := GetEngineName e, md_pad := identifier,
                      md_type := Analog, md_index := axis, axis_value := value\<rparr>]
              else [])"
  using assms
  by (simp add: SetAxis_configuring on_data_events_append on_data_events_notify
      on_data_events_GetAxis GetEngineName_def)

lemma engine_deflected_configuring_eq:
  "engine_deflected_configuring =
     \<lparr>controller_list =
        [(pad_A, \<lparr>buttons = [(5, False)], hat_buttons = [(0, 0)],
                  axes = [(0, f32_0_2), (3, 0)],
                  motions = [(0, zero_motion)], battery = BatteryNone\<rparr>)],
      callback_list = [], mapping_callback = \<lparr>on_data = True\<rparr>, configuring = True,
      last_callback_key = 0, input_engine = ''sdl'', GetHatButtonName = hat_names\<rparr>"
  by (simp add: engine_deflected_configuring_def engine_A_eq SetAxis_def with_controller_def
      at_key_def mutated_def TriggerOnAxisChange_def SetMappingCallback_def
      BeginConfiguration_def)

lemma engine_deflected_configuring_pad_A:
  "map_of (controller_list engine_deflected_configuring) pad_A =
     Some \<lparr>buttons = [(5, False)], hat_buttons = [(0, 0)], axes = [(0, f32_0_2), (3, 0)],
           motions = [(0, zero_motion)], battery = BatteryNone\<rparr>"
  "configuring engine_deflected_configuring"
  "on_data (mapping_callback engine_deflected_configuring)"
  by (simp_all add: engine_deflected_configuring_eq)

lemma differs_by_half_examples:
  "\<not> differs_by_half f32_0_3 0" "differs_by_half f32_0_6 0" "differs_by_half f32_0_5 0"
  "differs_by_half f32_0_7 f32_0_2"
  by (simp_all add: differs_by_half_def f32_literals)

text \<open>
  With 0.0 stored, 0.3 emits no event and 0.6 emits one. With 0.2 stored, 0.7 emits one:
  the exact difference of the two binary32 numbers is less than one half, and is rounded
  to one half.
\<close>

theorem axis_detected_from_half_witness:
  "(\<exists>events. SetAxis pad_A 0 f32_0_3 engine_configuring = Inr (engine_configuring, events) \<and>
      on_data_events events = [])
   \<and> (\<exists>events. SetAxis pad_A 0 f32_0_6 engine_configuring = Inr (engine_configuring, events) \<and>
      on_data_events events =
        [new_mapping_data\<lparr>engine := ''sdl'', md_pad := pad_A, md_type := Analog, md_index := 0,
           axis_value := f32_0_6\<rparr>])
   \<and> \<bar>valof (f32_value f32_0_7) - valof (f32_value f32_0_2)\<bar> < 1 / 2
   \<and> (\<exists>events. SetAxis pad_A 0 f32_0_7 engine_deflected_configuring =
          Inr (engine_deflected_configuring, events) \<and>
      on_data_events events =
        [new_mapping_data\<lparr>engine := ''sdl'', md_pad := pad_A, md_type := Analog, md_index := 0,
           axis_value := f32_0_7\<rparr>])"
  using axis_detected_from_half [OF engine_configuring_pad_A(2,3,1), of 0 f32_0_3]
    axis_detected_from_half [OF engine_configuring_pad_A(2,3,1), of 0 f32_0_6]
    axis_detected_from_half [OF engine_deflected_configuring_pad_A(2,3,1), of 0 f32_0_7]
  by (simp add: GetAxis_def engine_configuring_eq engine_deflected_configuring_eq
      GetEngineName_def differs_by_half_examples f32_literals)

text \<open>
  The claim as it is written fails where the difference is exactly 0.5: with 0.0 stored,
  \<open>SetAxis\<close> with 0.5 emits an event, though the difference does not exceed 0.5.
\<close>

theorem axis_threshold_counterexample:
  "GetAxis pad_A 0 engine_configuring = (0, [])
   \<and> valof (f32_value 0) = 0 \<and> valof (f32_value f32_0_5) = 1 / 2
   \<and> \<not> (1 / 2 < \<bar>valof (f32_value f32_0_5)
                   - valof (f32_value (fst (GetAxis pad_A 0 engine_configuring)))\<bar>)
   \<and> SetAxis pad_A 0 f32_0_5 engine_configuring =
       Inr (engine_configuring,
         [OnData (new_mapping_data\<lparr>engine := ''sdl'', md_pad := pad_A, md_type := Analog,
            md_index := 0, axis_value := f32_0_5\<rparr>)])"
proof -
  have stored: "GetAxis pad_A 0 engine_configuring = (0, [])"
    by (simp add: GetAxis_def engine_configuring_eq)
  then show ?thesis
    by (simp add: SetAxis_configuring [OF engine_configuring_pad_A(2,1)]
        engine_configuring_pad_A(3,5,6) differs_by_half_examples f32_literals)
qed

subsection \<open>The directions of a hat\<close>

lemma directions_are_powers:
  "[1, 2, 4, 8, 16, 32, 64, 128 :: 64 word] = map (\<lambda>n. 2 ^ n) [0..<8 :: nat]"
  by (simp add: upt_conv_Cons)

lemma ucast_power_u8:
  "n < 8 \<Longrightarrow> (ucast (2 ^ n :: 64 word) :: u8) = 2 ^ n"
  by (rule bit_word_eqI) (auto simp: bit_simps)

lemma hat_direction_bit:
  assumes "n < 8" and "map_of (controller_list e) identifier = Some controller"
    and "map_of (hat_buttons controller) button = Some stored"
  shows "hat_direction (2 ^ n) identifier button value e =
           (if bit value n = bit stored n then []
            else [OnData (new_mapping_data\<lparr>engine := GetEngineName e, md_pad := identifier,
                    md_type := HatButton, md_index := button,
                    hat_name := GetHatButtonName e (2 ^ n)\<rparr>)])"
proof -
  have incoming: "((ucast value :: 64 word) AND 2 ^ n \<noteq> 0) = bit value n"
    using assms(1) by (simp add: and_exp_eq_0_iff_not_bit bit_ucast_iff)
  have kept: "(stored AND 2 ^ n \<noteq> 0) = bit stored n"
    by (simp add: and_exp_eq_0_iff_not_bit)
  show ?thesis
    using assms
    by (simp add: hat_direction_def GetHatButton_def ucast_power_u8 incoming kept)
qed

lemma concat_singletons:
  "concat (map (\<lambda>x. if P x then [] else [f x]) xs) = map f (filter (\<lambda>x. \<not> P x) xs)"
  by (induction xs) simp_all

lemma hat_directions_concat:
  assumes "map_of (controller_list e) identifier = Some controller"
    and "map_of (hat_buttons controller) button = Some stored"
  shows "concat (map (\<lambda>d. hat_direction d identifier button value e)
                  [1, 2, 4, 8, 16, 32, 64, 128])
         = map (\<lambda>n. OnData (new_mapping_data\<lparr>engine := GetEngineName e, md_pad := identifier,
                        md_type := HatButton, md_index := button,
                        hat_name := GetHatButtonName e (2 ^ n)\<rparr>))
             (filter (\<lambda>n. bit value n \<noteq> bit stored n) [0..<8])"
proof -
  let ?data = "\<lambda>n. new_mapping_data\<lparr>engine := GetEngineName e, md_pad := identifier,
                        md_type := HatButton, md_index := button,
                        hat_name := GetHatButtonName e (2 ^ n)\<rparr>"
  have "concat (map (\<lambda>d. hat_direction d identifier button value e) [1, 2, 4, 8, 16, 32, 64, 128])
        = concat (map (\<lambda>n. hat_direction (2 ^ n) identifier button value e) [0..<8])"
    unfolding directions_are_powers by (simp add: comp_def)
  also have "\<dots> = concat (map (\<lambda>n. if bit value n = bit stored n then [] else [OnData (?data n)])
                       [0..<8])"
    by (rule arg_cong [where f = concat], rule map_cong [OF refl])
      (simp add: hat_direction_bit [OF _ assms])
  also have "\<dots> = map (\<lambda>n. OnData (?data n)) (filter (\<lambda>n. bit value n \<noteq> bit stored n) [0..<8])"
    by (rule concat_singletons)
  finally show ?thesis .
qed

text \<open>
  Claim C4. While the engine is configuring and a mapping observer is registered,
  \<open>SetHatButton\<close> on a hat that has an entry emits one mapping event for each of the
  eight bit positions at which the incoming mask differs from the stored mask, in
  ascending order, each naming the direction of its bit (1, 2, 4, ..., 128), and no other
  mapping event; their number is the number of differing bits. The engine is unchanged.
\<close>

theorem hat_directions_detected:
  assumes "configuring e" and "on_data (mapping_callback e)"
    and "map_of (controller_list e) identifier = Some controller"
    and "map_of (hat_buttons controller) button = Some stored"
  shows "\<exists>events. SetHatButton identifier button value e = Inr (e, events) \<and>
           on_data_events events =
             map (\<lambda>n. new_mapping_data\<lparr>engine := GetEngineName e, md_pad := identifier,
                        md_type := HatButton, md_index := button,
                        hat_name := GetHatButtonName e (2 ^ n)\<rparr>)
               (filter (\<lambda>n. bit value n \<noteq> bit stored n) [0..<8]) \<and>
           length (on_data_events events) = card {n. n < 8 \<and> bit value n \<noteq> bit stored n}"
proof -
  let ?data = "\<lambda>n. new_mapping_data\<lparr>engine := GetEngineName e, md_pad := identifier,
                        md_type := HatButton, md_index := button,
                        hat_name := GetHatButtonName e (2 ^ n)\<rparr>"
  let ?differs = "\<lambda>n. bit value n \<noteq> bit stored n"
  note detected = hat_directions_concat [OF assms(3,4), of "value"]
  have data: "on_data_events (map (\<lambda>n. OnData (?data n)) ns) = map ?data ns" for ns
    by (induction ns) simp_all
  have count: "length (filter ?differs [0..<8]) = card {n. n < 8 \<and> ?differs n}"
  proof -
    have "length (filter ?differs [0..<8]) = card ({n. ?differs n} \<inter> set [0..<8])"
      by (rule distinct_length_filter) simp
    also have "{n. ?differs n} \<inter> set [0..<8] = {n. n < 8 \<and> ?differs n}" by auto
    finally show ?thesis .
  qed
  let ?events = "notify_pollers (callback_list e) identifier HatButton button @
                  map (\<lambda>n. OnData (?data n)) (filter ?differs [0..<8])"
  have returned: "SetHatButton identifier button value e = Inr (e, ?events)"
    using SetHatButton_configuring [OF assms(1,3), of button "value"] assms(2)
    unfolding detected by simp
  have emitted: "on_data_events ?events = map ?data (filter ?differs [0..<8])"
    by (simp only: on_data_events_append on_data_events_notify data append_Nil)
  have "length (on_data_events ?events) = card {n. n < 8 \<and> ?differs n}"
    unfolding emitted length_map by (rule count)
  with returned emitted show ?thesis by (intro exI [of _ ?events] conjI)
qed

theorem hat_directions_detected_witness:
  "\<exists>events. SetHatButton pad_A 0 5 engine_configuring = Inr (engine_configuring, events) \<and>
     on_data_events events =
       [new_mapping_data\<lparr>engine := ''sdl'', md_pad := pad_A, md_type := HatButton, md_index := 0,
          hat_name := ''up''\<rparr>,
        new_mapping_data\<lparr>engine := ''sdl'', md_pad := pad_A, md_type := HatButton, md_index := 0,
          hat_name := ''down''\<rparr>] \<and>
     length (on_data_events events) = 2"
proof -
  have h: "map_of (hat_buttons \<lparr>buttons = [(5, False)], hat_buttons = [(0, 0)],
      axes = [(0, 0), (3, 0)], motions = [(0, zero_motion)], battery = BatteryNone\<rparr>) 0 = Some 0"
    by simp
  have bits: "filter (\<lambda>n. bit (5 :: u8) n \<noteq> bit (0 :: u8) n) [0..<8] = [0, 2]"
    by (simp add: upt_conv_Cons bit_numeral_rec)
  from hat_directions_detected [OF engine_configuring_pad_A(2,3,1) h, of 5]
  obtain events where
    set: "SetHatButton pad_A 0 5 engine_configuring = Inr (engine_configuring, events)"
    and data: "on_data_events events =
       map (\<lambda>n. new_mapping_data\<lparr>engine := GetEngineName engine_configuring, md_pad := pad_A,
                  md_type := HatButton, md_index := 0,
                  hat_name := GetHatButtonName engine_configuring (2 ^ n)\<rparr>)
         (filter (\<lambda>n. bit (5 :: u8) n \<noteq> bit (0 :: u8) n) [0..<8])"
    by blast
  from data have "on_data_events events =
       [new_mapping_data\<lparr>engine := ''sdl'', md_pad := pad_A, md_type := HatButton, md_index := 0,
          hat_name := ''up''\<rparr>,
        new_mapping_data\<lparr>engine := ''sdl'', md_pad := pad_A, md_type := HatButton, md_index := 0,
          hat_name := ''down''\<rparr>]"
    unfolding bits by (simp add: GetEngineName_def engine_configuring_eq hat_names_def)
  with set show ?thesis by simp
qed

subsection \<open>Loops of calls\<close>

lemma and_then_return: "and_then (Inr (e, [])) f = f e"
  by (auto simp: and_then_def split: sum.splits)

lemma and_then_assoc:
  "and_then (and_then r f) g = and_then r (\<lambda>e1. and_then (f e1) g)"
  by (auto simp: and_then_def split: sum.splits prod.splits)

lemma for_each_append:
  "for_each body (xs @ ys) = (\<lambda>e. and_then (for_each body xs e) (for_each body ys))"
proof (induction xs)
  case Nil
  show ?case by (rule ext) (simp add: and_then_return)
next
  case (Cons x xs)
  show ?case by (rule ext) (simp add: Cons.IH and_then_assoc)
qed

lemma for_each_map: "for_each body (map f xs) = for_each (\<lambda>x. body (f x)) xs"
proof (induction xs)
  case Nil
  show ?case by (rule ext) simp
next
  case (Cons x xs)
  show ?case by (rule ext) (simp add: Cons.IH)
qed

lemma for_each_concat:
  "for_each body (concat (map f xs)) = for_each (\<lambda>x. for_each body (f x)) xs"
proof (induction xs)
  case Nil
  show ?case by (rule ext) simp
next
  case (Cons x xs)
  show ?case by (rule ext) (simp add: Cons.IH for_each_append)
qed

lemma ResetButtonState_calls: "ResetButtonState e = for_each invoke (button_state_calls e) e"
  by (simp add: ResetButtonState_def button_state_calls_def for_each_concat for_each_append
      for_each_map)

lemma ResetAnalogState_calls: "ResetAnalogState e = for_each invoke (analog_state_calls e) e"
  by (simp add: ResetAnalogState_def analog_state_calls_def for_each_concat for_each_map)

text \<open>
  The rule of a loop: an invariant of the calls made so far, the events so far and the
  engine holds at the end if it holds at the start and every turn returns and keeps it.
\<close>

lemma for_each_rule:
  assumes "P [] [] e"
    and "\<And>made events x e1. P made events e1 \<Longrightarrow> x \<in> set xs \<Longrightarrow>
           \<exists>e2 new. body x e1 = Inr (e2, new) \<and> P (made @ [x]) (events @ new) e2"
  shows "\<exists>e' events. for_each body xs e = Inr (e', events) \<and> P xs events e'"
proof -
  have "\<exists>e' new. for_each body zs e1 = Inr (e', new) \<and> P (made @ zs) (events @ new) e'"
    if "P made events e1" and "set zs \<subseteq> set xs" for zs made events e1
    using that
  proof (induction zs arbitrary: made events e1)
    case Nil
    then show ?case by simp
  next
    case (Cons z zs)
    from Cons.prems assms(2) [of made events e1 z] obtain e2 new where
      turn: "body z e1 = Inr (e2, new)" and kept: "P (made @ [z]) (events @ new) e2"
      by auto
    from Cons.IH [OF kept] Cons.prems(2) obtain e' later where
      rest: "for_each body zs e2 = Inr (e', later)"
      and final: "P ((made @ [z]) @ zs) ((events @ new) @ later) e'"
      by auto
    from turn rest have "for_each body (z # zs) e1 = Inr (e', new @ later)"
      by (simp add: and_then_def)
    with final show ?case by auto
  qed
  from this [of "[]" "[]" e xs] assms(1) show ?thesis by simp
qed

subsection \<open>The calls of a reset, one at a time\<close>

lemma stored_write_back:
  assumes "map_of (controller_list e) identifier = Some controller"
  shows "stored_button (e\<lparr>controller_list := insert_or_assign identifier c' (controller_list e)\<rparr>) i j
           = (if i = identifier then map_of (buttons c') j else stored_button e i j)"
    and "stored_hat (e\<lparr>controller_list := insert_or_assign identifier c' (controller_list e)\<rparr>) i j
           = (if i = identifier then map_of (hat_buttons c') j else stored_hat e i j)"
    and "stored_axis (e\<lparr>controller_list := insert_or_assign identifier c' (controller_list e)\<rparr>) i j
           = (if i = identifier then map_of (axes c') j else stored_axis e i j)"
  by (simp_all add: stored_button_def stored_hat_def stored_axis_def map_of_insert_or_assign)

lemma stored_known:
  assumes "map_of (controller_list e) identifier = Some controller"
  shows "stored_button e identifier j = map_of (buttons controller) j"
    and "stored_hat e identifier j = map_of (hat_buttons controller) j"
    and "stored_axis e identifier j = map_of (axes controller) j"
  using assms by (simp_all add: stored_button_def stored_hat_def stored_axis_def)

lemma invoke_normal:
  assumes "\<not> configuring e1" and "map_of (controller_list e1) (call_pad x) = Some c"
  shows "\<exists>e2 new. invoke x e1 = Inr (e2, new) \<and>
      (\<forall>i j. stored_button e2 i j = (if x = ResetButton i j then Some False else stored_button e1 i j)) \<and>
      (\<forall>i j. stored_hat e2 i j = (if x = ResetHatButton i j then Some 0 else stored_hat e1 i j)) \<and>
      (\<forall>i j. stored_axis e2 i j = (if x = ResetAxis i j then Some 0 else stored_axis e1 i j))"
proof (cases x)
  case (ResetButton pad_id button)
  with assms have c: "map_of (controller_list e1) pad_id = Some c" by simp
  show ?thesis
    unfolding ResetButton invoke.simps SetButton_normal [OF assms(1) c]
    by (simp add: stored_write_back [OF c] stored_known [OF c] map_of_insert_or_assign)
next
  case (ResetHatButton pad_id button)
  with assms have c: "map_of (controller_list e1) pad_id = Some c" by simp
  show ?thesis
    unfolding ResetHatButton invoke.simps SetHatButton_normal [OF assms(1) c]
    by (simp add: stored_write_back [OF c] stored_known [OF c] map_of_insert_or_assign)
next
  case (ResetAxis pad_id axis)
  with assms have c: "map_of (controller_list e1) pad_id = Some c" by simp
  show ?thesis
    unfolding ResetAxis invoke.simps SetAxis_normal [OF assms(1) c]
    by (simp add: stored_write_back [OF c] stored_known [OF c] map_of_insert_or_assign)
qed

lemma entries_kept_refl: "entries_kept e e"
  by (simp add: entries_kept_def)

lemma entries_kept_trans: "entries_kept e e1 \<Longrightarrow> entries_kept e1 e2 \<Longrightarrow> entries_kept e e2"
  by (simp add: entries_kept_def)

lemma invoke_notifies:
  assumes "map_of (controller_list e1) (call_pad x) = Some c"
  shows "\<exists>e2 new. invoke x e1 = Inr (e2, new) \<and> only_table_changed e1 e2 \<and>
           on_change_keys new = notified_by e1 x"
proof (cases x)
  case (ResetButton pad_id button)
  with assms have c: "map_of (controller_list e1) pad_id = Some c" by simp
  from mutators_notify [OF c, of button False] obtain e2 new where
    "SetButton pad_id button False e1 = Inr (e2, new)"
    "on_change_keys new = matching_keys e1 pad_id Button button" by blast
  then show ?thesis unfolding ResetButton by (auto dest: SetButton_only_table)
next
  case (ResetHatButton pad_id button)
  with assms have c: "map_of (controller_list e1) pad_id = Some c" by simp
  from mutators_notify [OF c, of button _ 0] obtain e2 new where
    "SetHatButton pad_id button 0 e1 = Inr (e2, new)"
    "on_change_keys new = matching_keys e1 pad_id HatButton button" by blast
  then show ?thesis unfolding ResetHatButton by (auto dest: SetHatButton_only_table)
next
  case (ResetAxis pad_id axis)
  with assms have c: "map_of (controller_list e1) pad_id = Some c" by simp
  from mutators_notify [OF c, of axis _ _ 0] obtain e2 new where
    "SetAxis pad_id axis 0 e1 = Inr (e2, new)"
    "on_change_keys new = matching_keys e1 pad_id Analog axis" by blast
  then show ?thesis unfolding ResetAxis by (auto dest: SetAxis_only_table)
qed

lemma invoke_configuring:
  assumes "configuring e1" and "map_of (controller_list e1) (call_pad x) = Some c"
  shows "\<exists>e2 new. invoke x e1 = Inr (e2, new) \<and> entries_kept e1 e2 \<and>
           (on_data (mapping_callback e1) \<longrightarrow> detected_by e1 x \<subseteq> set new)"
proof (cases x)
  case (ResetButton pad_id button)
  with assms have c: "map_of (controller_list e1) pad_id = Some c" by simp
  show ?thesis
    unfolding ResetButton invoke.simps SetButton_configuring [OF assms(1) c]
    by (auto simp: entries_kept_def stored_write_back [OF c] stored_known [OF c]
        map_of_try_emplace GetEngineName_def split: option.splits)
next
  case (ResetHatButton pad_id button)
  with assms have c: "map_of (controller_list e1) pad_id = Some c" by simp
  have "detected_by e1 (ResetHatButton pad_id button)
        \<subseteq> set (concat (map (\<lambda>idx. hat_direction idx pad_id button 0 e1)
                    [1, 2, 4, 8, 16, 32, 64, 128]))"
  proof (cases "map_of (hat_buttons c) button")
    case None
    then show ?thesis by (simp add: stored_known [OF c])
  next
    case (Some stored)
    show ?thesis
      unfolding hat_directions_concat [OF c Some]
      by (auto simp: stored_known [OF c] Some)
  qed
  then show ?thesis
    unfolding ResetHatButton invoke.simps SetHatButton_configuring [OF assms(1) c]
    by (auto simp: entries_kept_refl)
next
  case (ResetAxis pad_id axis)
  with assms have c: "map_of (controller_list e1) pad_id = Some c" by simp
  show ?thesis
    unfolding ResetAxis invoke.simps SetAxis_configuring [OF assms(1) c]
    by (auto simp: entries_kept_refl stored_known [OF c] GetAxis_def c GetEngineName_def
        reset_axis_test split: option.splits)
qed

lemma detected_by_kept:
  assumes "entries_kept e e1" and "only_table_changed e e1"
  shows "detected_by e x \<subseteq> detected_by e1 x"
proof -
  from assms(2) have same: "GetEngineName e1 = GetEngineName e"
    "GetHatButtonName e1 = GetHatButtonName e"
    by (simp_all add: only_table_changed_def GetEngineName_def)
  from assms(1) show ?thesis
    by (cases x) (auto simp: entries_kept_def same split: option.splits)
qed

subsection \<open>The loops of the resets\<close>

lemma notified_by_same_registry:
  "callback_list e1 = callback_list e \<Longrightarrow> notified_by e1 x = notified_by e x"
  by (cases x) (simp_all add: matching_keys_def)

lemma listed_pad_known: "(k, v) \<in> set m \<Longrightarrow> map_of m k \<noteq> None"
  by (simp add: map_of_eq_None_iff image_iff) force

lemma button_state_calls_known:
  "x \<in> set (button_state_calls e) \<Longrightarrow> map_of (controller_list e) (call_pad x) \<noteq> None"
  by (auto simp: button_state_calls_def dest: listed_pad_known)

lemma analog_state_calls_known:
  "x \<in> set (analog_state_calls e) \<Longrightarrow> map_of (controller_list e) (call_pad x) \<noteq> None"
  by (auto simp: analog_state_calls_def dest: listed_pad_known)

lemma known_entries_are_called:
  "stored_button e i j \<noteq> None \<Longrightarrow> ResetButton i j \<in> set (button_state_calls e)"
  "stored_hat e i j \<noteq> None \<Longrightarrow> ResetHatButton i j \<in> set (button_state_calls e)"
  "stored_axis e i j \<noteq> None \<Longrightarrow> ResetAxis i j \<in> set (analog_state_calls e)"
  by (force simp: stored_button_def stored_hat_def stored_axis_def button_state_calls_def
      analog_state_calls_def split: option.splits dest!: map_of_SomeD)+

lemma reset_loop_notifies:
  assumes known: "\<And>x. x \<in> set calls \<Longrightarrow> map_of (controller_list e) (call_pad x) \<noteq> None"
  shows "\<exists>e' events. for_each invoke calls e = Inr (e', events) \<and> only_table_changed e e' \<and>
           on_change_keys events = concat (map (notified_by e) calls)"
proof (rule for_each_rule [where P = "\<lambda>made events e1. only_table_changed e e1 \<and>
           on_change_keys events = concat (map (notified_by e) made)"])
  show "only_table_changed e e \<and> on_change_keys [] = concat (map (notified_by e) [])"
    by (simp add: only_table_changed_refl)
next
  fix made events x e1
  assume inv: "only_table_changed e e1 \<and>
      on_change_keys events = concat (map (notified_by e) made)" and x: "x \<in> set calls"
  from known [OF x] inv obtain c where "map_of (controller_list e1) (call_pad x) = Some c"
    by (blast dest: only_table_changed_known)
  from invoke_notifies [OF this] obtain e2 new where
    turn: "invoke x e1 = Inr (e2, new)" and table: "only_table_changed e1 e2"
    and keys: "on_change_keys new = notified_by e1 x" by blast
  from inv have "callback_list e1 = callback_list e" by (simp add: only_table_changed_def)
  then have same: "notified_by e1 x = notified_by e x" by (rule notified_by_same_registry)
  from inv table have "only_table_changed e e2" by (blast intro: only_table_changed_trans)
  moreover from inv keys same
  have "on_change_keys (events @ new) = concat (map (notified_by e) (made @ [x]))"
    by (simp add: on_change_keys_append)
  ultimately
  show "\<exists>e2 new. invoke x e1 = Inr (e2, new) \<and>
          (only_table_changed e e2 \<and>
           on_change_keys (events @ new) = concat (map (notified_by e) (made @ [x])))"
    using turn by blast
qed

lemma reset_loop_normal:
  assumes known: "\<And>x. x \<in> set calls \<Longrightarrow> map_of (controller_list e) (call_pad x) \<noteq> None"
    and normal: "\<not> configuring e"
  shows "\<exists>e' events. for_each invoke calls e = Inr (e', events) \<and>
           (\<forall>i j. ResetButton i j \<in> set calls \<longrightarrow> stored_button e' i j = Some False) \<and>
           (\<forall>i j. ResetHatButton i j \<in> set calls \<longrightarrow> stored_hat e' i j = Some 0) \<and>
           (\<forall>i j. ResetAxis i j \<in> set calls \<longrightarrow> stored_axis e' i j = Some 0)"
proof -
  let ?P = "\<lambda>made (events :: event list) e1. only_table_changed e e1 \<and>
           (\<forall>i j. ResetButton i j \<in> set made \<longrightarrow> stored_button e1 i j = Some False) \<and>
           (\<forall>i j. ResetHatButton i j \<in> set made \<longrightarrow> stored_hat e1 i j = Some 0) \<and>
           (\<forall>i j. ResetAxis i j \<in> set made \<longrightarrow> stored_axis e1 i j = Some 0)"
  have "\<exists>e' events. for_each invoke calls e = Inr (e', events) \<and> ?P calls events e'"
  proof (rule for_each_rule [where P = ?P])
    show "?P [] [] e" by (simp add: only_table_changed_refl)
  next
    fix made events x e1
    assume inv: "?P made events e1" and x: "x \<in> set calls"
    from known [OF x] inv obtain c where c: "map_of (controller_list e1) (call_pad x) = Some c"
      by (blast dest: only_table_changed_known)
    from inv normal have n1: "\<not> configuring e1" by (simp add: only_table_changed_def)
    from invoke_normal [OF n1 c] obtain e2 new where
      turn: "invoke x e1 = Inr (e2, new)"
      and b: "\<And>i j. stored_button e2 i j = (if x = ResetButton i j then Some False else stored_button e1 i j)"
      and h: "\<And>i j. stored_hat e2 i j = (if x = ResetHatButton i j then Some 0 else stored_hat e1 i j)"
      and a: "\<And>i j. stored_axis e2 i j = (if x = ResetAxis i j then Some 0 else stored_axis e1 i j)"
      by blast
    from invoke_notifies [OF c] turn have "only_table_changed e1 e2" by auto
    with inv have "only_table_changed e e2" by (blast intro: only_table_changed_trans)
    with inv turn show "\<exists>e2 new. invoke x e1 = Inr (e2, new) \<and> ?P (made @ [x]) (events @ new) e2"
      by (simp add: b h a)
  qed
  then show ?thesis by blast
qed

lemma reset_loop_configuring:
  assumes known: "\<And>x. x \<in> set calls \<Longrightarrow> map_of (controller_list e) (call_pad x) \<noteq> None"
    and mode: "configuring e" "on_data (mapping_callback e)"
  shows "\<exists>e' events. for_each invoke calls e = Inr (e', events) \<and> entries_kept e e' \<and>
           (\<forall>x \<in> set calls. detected_by e x \<subseteq> set events)"
proof -
  let ?P = "\<lambda>made events e1. only_table_changed e e1 \<and> entries_kept e e1 \<and>
           (\<forall>x \<in> set made. detected_by e x \<subseteq> set events)"
  have "\<exists>e' events. for_each invoke calls e = Inr (e', events) \<and> ?P calls events e'"
  proof (rule for_each_rule [where P = ?P])
    show "?P [] [] e" by (simp add: only_table_changed_refl entries_kept_refl)
  next
    fix made events x e1
    assume inv: "?P made events e1" and x: "x \<in> set calls"
    from known [OF x] inv obtain c where c: "map_of (controller_list e1) (call_pad x) = Some c"
      by (blast dest: only_table_changed_known)
    from inv mode have m1: "configuring e1" "on_data (mapping_callback e1)"
      by (simp_all add: only_table_changed_def)
    from invoke_configuring [OF m1(1) c] m1(2) obtain e2 new where
      turn: "invoke x e1 = Inr (e2, new)" and kept: "entries_kept e1 e2"
      and found: "detected_by e1 x \<subseteq> set new" by blast
    from invoke_notifies [OF c] turn have "only_table_changed e1 e2" by auto
    with inv have table: "only_table_changed e e2" by (blast intro: only_table_changed_trans)
    from inv kept have kept2: "entries_kept e e2" by (blast intro: entries_kept_trans)
    from inv detected_by_kept [of e e1 x] found have "detected_by e x \<subseteq> set new" by blast
    with inv have "\<forall>y \<in> set (made @ [x]). detected_by e y \<subseteq> set (events @ new)" by auto
    with turn table kept2
    show "\<exists>e2 new. invoke x e1 = Inr (e2, new) \<and> ?P (made @ [x]) (events @ new) e2" by blast
  qed
  then show ?thesis by blast
qed

text \<open>
  Claim C9. \<open>ResetButtonState\<close> is the sequence of the calls \<open>SetButton\<close> with
  \<open>False\<close> and \<open>SetHatButton\<close> with 0 for the entries of the table, which include
  every known button and hat of every known pad; \<open>ResetAnalogState\<close> is the sequence
  of the calls \<open>SetAxis\<close> with 0, which include every known axis. Both return. Each
  call notifies the subscriptions that match it. In normal mode every known button then
  reads \<open>False\<close>, every known hat 0 and every known axis 0. While the engine is
  configuring with a mapping observer, the reset of a pressed button, of a hat with a bit
  set and of an axis deflected by 0.5 or more (or holding no number) emits its mapping
  event.
\<close>

theorem resets_route_through_set:
  "ResetButtonState e = for_each invoke (button_state_calls e) e
   \<and> ResetAnalogState e = for_each invoke (analog_state_calls e) e
   \<and> (\<forall>identifier idx.
        (stored_button e identifier idx \<noteq> None \<longrightarrow>
           ResetButton identifier idx \<in> set (button_state_calls e)) \<and>
        (stored_hat e identifier idx \<noteq> None \<longrightarrow>
           ResetHatButton identifier idx \<in> set (button_state_calls e)) \<and>
        (stored_axis e identifier idx \<noteq> None \<longrightarrow>
           ResetAxis identifier idx \<in> set (analog_state_calls e)))
   \<and> (\<exists>e' events. ResetButtonState e = Inr (e', events) \<and>
        on_change_keys events = concat (map (notified_by e) (button_state_calls e)) \<and>
        (\<not> configuring e \<longrightarrow>
           (\<forall>identifier idx.
              (stored_button e identifier idx \<noteq> None \<longrightarrow>
                 stored_button e' identifier idx = Some False) \<and>
              (stored_hat e identifier idx \<noteq> None \<longrightarrow>
                 stored_hat e' identifier idx = Some 0))) \<and>
        (configuring e \<and> on_data (mapping_callback e) \<longrightarrow>
           (\<forall>x \<in> set (button_state_calls e). detected_by e x \<subseteq> set events)))
   \<and> (\<exists>e' events. ResetAnalogState e = Inr (e', events) \<and>
        on_change_keys events = concat (map (notified_by e) (analog_state_calls e)) \<and>
        (\<not> configuring e \<longrightarrow>
           (\<forall>identifier idx. stored_axis e identifier idx \<noteq> None \<longrightarrow>
              stored_axis e' identifier idx = Some 0)) \<and>
        (configuring e \<and> on_data (mapping_callback e) \<longrightarrow>
           (\<forall>x \<in> set (analog_state_calls e). detected_by e x \<subseteq> set events)))"
proof -
  note called = known_entries_are_called [of e]
  have buttons: "\<exists>e' events. ResetButtonState e = Inr (e', events) \<and>
        on_change_keys events = concat (map (notified_by e) (button_state_calls e)) \<and>
        (\<not> configuring e \<longrightarrow>
           (\<forall>identifier idx.
              (stored_button e identifier idx \<noteq> None \<longrightarrow>
                 stored_button e' identifier idx = Some False) \<and>
              (stored_hat e identifier idx \<noteq> None \<longrightarrow>
                 stored_hat e' identifier idx = Some 0))) \<and>
        (configuring e \<and> on_data (mapping_callback e) \<longrightarrow>
           (\<forall>x \<in> set (button_state_calls e). detected_by e x \<subseteq> set events))"
  proof -
    from reset_loop_notifies [where calls = "button_state_calls e" and e = e, OF button_state_calls_known] obtain e' events where
      returned: "for_each invoke (button_state_calls e) e = Inr (e', events)"
      and keys: "on_change_keys events = concat (map (notified_by e) (button_state_calls e))"
      by blast
    have normal: "stored_button e' i j = Some False"
      if "\<not> configuring e" and "ResetButton i j \<in> set (button_state_calls e)" for i j
      using reset_loop_normal [where calls = "button_state_calls e" and e = e, OF button_state_calls_known that(1)] returned that(2) by auto
    have normal_hat: "stored_hat e' i j = Some 0"
      if "\<not> configuring e" and "ResetHatButton i j \<in> set (button_state_calls e)" for i j
      using reset_loop_normal [where calls = "button_state_calls e" and e = e, OF button_state_calls_known that(1)] returned that(2) by auto
    have detected: "detected_by e x \<subseteq> set events"
      if "configuring e" and "on_data (mapping_callback e)" and "x \<in> set (button_state_calls e)"
      for x
      using reset_loop_configuring [where calls = "button_state_calls e" and e = e, OF button_state_calls_known that(1,2)] returned that(3)
      by auto
    from returned keys normal normal_hat detected called(1,2) show ?thesis
      unfolding ResetButtonState_calls by (intro exI [of _ e'] exI [of _ events]) blast
  qed
  have analog: "\<exists>e' events. ResetAnalogState e = Inr (e', events) \<and>
        on_change_keys events = concat (map (notified_by e) (analog_state_calls e)) \<and>
        (\<not> configuring e \<longrightarrow>
           (\<forall>identifier idx. stored_axis e identifier idx \<noteq> None \<longrightarrow>
              stored_axis e' identifier idx = Some 0)) \<and>
        (configuring e \<and> on_data (mapping_callback e) \<longrightarrow>
           (\<forall>x \<in> set (analog_state_calls e). detected_by e x \<subseteq> set events))"
  proof -
    from reset_loop_notifies [where calls = "analog_state_calls e" and e = e, OF analog_state_calls_known] obtain e' events where
      returned: "for_each invoke (analog_state_calls e) e = Inr (e', events)"
      and keys: "on_change_keys events = concat (map (notified_by e) (analog_state_calls e))"
      by blast
    have normal: "stored_axis e' i j = Some 0"
      if "\<not> configuring e" and "ResetAxis i j \<in> set (analog_state_calls e)" for i j
      using reset_loop_normal [where calls = "analog_state_calls e" and e = e, OF analog_state_calls_known that(1)] returned that(2) by auto
    have detected: "detected_by e x \<subseteq> set events"
      if "configuring e" and "on_data (mapping_callback e)" and "x \<in> set (analog_state_calls e)"
      for x
      using reset_loop_configuring [where calls = "analog_state_calls e" and e = e, OF analog_state_calls_known that(1,2)] returned that(3)
      by auto
    from returned keys normal detected called(3) show ?thesis
      unfolding ResetAnalogState_calls by (intro exI [of _ e'] exI [of _ events]) blast
  qed
  from called have "\<forall>identifier idx.
        (stored_button e identifier idx \<noteq> None \<longrightarrow>
           ResetButton identifier idx \<in> set (button_state_calls e)) \<and>
        (stored_hat e identifier idx \<noteq> None \<longrightarrow>
           ResetHatButton identifier idx \<in> set (button_state_calls e)) \<and>
        (stored_axis e identifier idx \<noteq> None \<longrightarrow>
           ResetAxis identifier idx \<in> set (analog_state_calls e))"
    by blast
  with buttons analog ResetButtonState_calls [of e] ResetAnalogState_calls [of e]
  show ?thesis by (intro conjI)
qed

lemma engine_pressed_eq:
  "engine_pressed =
     \<lparr>controller_list =
        [(pad_A, \<lparr>buttons = [(5, True)], hat_buttons = [(0, 5)], axes = [(0, f32_0_9), (3, 0)],
                  motions = [(0, zero_motion)], battery = BatteryNone\<rparr>)],
      callback_list = [(0, poller_A5)], mapping_callback = \<lparr>on_data = False\<rparr>,
      configuring = False, last_callback_key = 1, input_engine = ''sdl'',
      GetHatButtonName = hat_names\<rparr>"
  by (simp add: engine_pressed_def engine_A_eq SetCallback_def increment_def INT_MAX_def SetButton_def
      SetHatButton_def SetAxis_def with_controller_def at_key_def mutated_def
      TriggerOnButtonChange_def TriggerOnHatButtonChange_def TriggerOnAxisChange_def)

lemma engine_pressed_configuring_eq:
  "engine_pressed_configuring =
     \<lparr>controller_list =
        [(pad_A, \<lparr>buttons = [(5, True)], hat_buttons = [(0, 5)], axes = [(0, f32_0_9), (3, 0)],
                  motions = [(0, zero_motion)], battery = BatteryNone\<rparr>)],
      callback_list = [(0, poller_A5)], mapping_callback = \<lparr>on_data = True\<rparr>,
      configuring = True, last_callback_key = 1, input_engine = ''sdl'',
      GetHatButtonName = hat_names\<rparr>"
  by (simp add: engine_pressed_configuring_def engine_pressed_eq SetMappingCallback_def
      BeginConfiguration_def)

theorem resets_route_through_set_witness:
  "(\<exists>e' events. ResetButtonState engine_pressed = Inr (e', events) \<and>
      on_change_keys events = [0] \<and>
      stored_button e' pad_A 5 = Some False \<and> stored_hat e' pad_A 0 = Some 0)
   \<and> (\<exists>e' events. ResetAnalogState engine_pressed = Inr (e', events) \<and>
      stored_axis e' pad_A 0 = Some 0)
   \<and> (\<exists>e' events. ResetButtonState engine_pressed_configuring = Inr (e', events) \<and>
      on_change_keys events = [0] \<and>
      OnData (new_mapping_data\<lparr>engine := ''sdl'', md_pad := pad_A, md_type := Button,
        md_index := 5, button_value := False\<rparr>) \<in> set events \<and>
      OnData (new_mapping_data\<lparr>engine := ''sdl'', md_pad := pad_A, md_type := HatButton,
        md_index := 0, hat_name := ''up''\<rparr>) \<in> set events \<and>
      OnData (new_mapping_data\<lparr>engine := ''sdl'', md_pad := pad_A, md_type := HatButton,
        md_index := 0, hat_name := ''down''\<rparr>) \<in> set events)
   \<and> (\<exists>e' events. ResetAnalogState engine_pressed_configuring = Inr (e', events) \<and>
      OnData (new_mapping_data\<lparr>engine := ''sdl'', md_pad := pad_A, md_type := Analog,
        md_index := 0, axis_value := 0\<rparr>) \<in> set events)"
proof -
  note normal = resets_route_through_set [of engine_pressed]
  note config = resets_route_through_set [of engine_pressed_configuring]
  have n: "\<not> configuring engine_pressed"
    "stored_button engine_pressed pad_A 5 \<noteq> None" "stored_hat engine_pressed pad_A 0 \<noteq> None"
    "stored_axis engine_pressed pad_A 0 \<noteq> None"
    "concat (map (notified_by engine_pressed) (button_state_calls engine_pressed)) = [0]"
    by (simp_all add: engine_pressed_eq stored_button_def stored_hat_def stored_axis_def
        button_state_calls_def matching_keys_def poller_A5_def)
  have c: "configuring engine_pressed_configuring"
    "on_data (mapping_callback engine_pressed_configuring)"
    "ResetButton pad_A 5 \<in> set (button_state_calls engine_pressed_configuring)"
    "ResetHatButton pad_A 0 \<in> set (button_state_calls engine_pressed_configuring)"
    "ResetAxis pad_A 0 \<in> set (analog_state_calls engine_pressed_configuring)"
    "concat (map (notified_by engine_pressed_configuring)
       (button_state_calls engine_pressed_configuring)) = [0]"
    by (simp_all add: engine_pressed_configuring_eq button_state_calls_def
        analog_state_calls_def matching_keys_def poller_A5_def)
  have button: "OnData (new_mapping_data\<lparr>engine := ''sdl'', md_pad := pad_A, md_type := Button,
        md_index := 5, button_value := False\<rparr>)
      \<in> detected_by engine_pressed_configuring (ResetButton pad_A 5)"
    by (simp add: engine_pressed_configuring_eq stored_button_def GetEngineName_def)
  have hats: "detected_by engine_pressed_configuring (ResetHatButton pad_A 0) =
      (\<lambda>n. OnData (new_mapping_data\<lparr>engine := ''sdl'', md_pad := pad_A, md_type := HatButton,
         md_index := 0, hat_name := hat_names (2 ^ n)\<rparr>)) ` {n. n < 8 \<and> bit (5 :: u8) n}"
    by (simp add: engine_pressed_configuring_eq stored_hat_def GetEngineName_def)
  have set_bits: "0 \<in> {n. n < 8 \<and> bit (5 :: u8) n}" "2 \<in> {n. n < 8 \<and> bit (5 :: u8) n}"
    by (simp_all add: bit_numeral_rec)
  have names: "hat_names (2 ^ 0) = ''up''" "hat_names (2 ^ 2) = ''down''"
    by (simp_all add: hat_names_def)
  have hat: "OnData (new_mapping_data\<lparr>engine := ''sdl'', md_pad := pad_A, md_type := HatButton,
        md_index := 0, hat_name := ''up''\<rparr>)
      \<in> detected_by engine_pressed_configuring (ResetHatButton pad_A 0)"
    "OnData (new_mapping_data\<lparr>engine := ''sdl'', md_pad := pad_A, md_type := HatButton,
        md_index := 0, hat_name := ''down''\<rparr>)
      \<in> detected_by engine_pressed_configuring (ResetHatButton pad_A 0)"
    unfolding hats
    by (rule image_eqI [OF _ set_bits(1)], simp only: names)
      (rule image_eqI [OF _ set_bits(2)], simp only: names)
  have axis: "OnData (new_mapping_data\<lparr>engine := ''sdl'', md_pad := pad_A, md_type := Analog,
        md_index := 0, axis_value := 0\<rparr>)
      \<in> detected_by engine_pressed_configuring (ResetAxis pad_A 0)"
    by (simp add: engine_pressed_configuring_eq stored_axis_def GetEngineName_def
        half_deflected_def f32_literals)
  from normal n have 1: "\<exists>e' events. ResetButtonState engine_pressed = Inr (e', events) \<and>
      on_change_keys events = [0] \<and>
      stored_button e' pad_A 5 = Some False \<and> stored_hat e' pad_A 0 = Some 0"
    by (metis (no_types, lifting))
  from normal n have 2: "\<exists>e' events. ResetAnalogState engine_pressed = Inr (e', events) \<and>
      stored_axis e' pad_A 0 = Some 0"
    by (metis (no_types, lifting))
  from config c obtain e3 events3 where
    3: "ResetButtonState engine_pressed_configuring = Inr (e3, events3)"
      "on_change_keys events3 = [0]"
      "detected_by engine_pressed_configuring (ResetButton pad_A 5) \<subseteq> set events3"
      "detected_by engine_pressed_configuring (ResetHatButton pad_A 0) \<subseteq> set events3"
    by (metis (no_types, lifting))
  from config c obtain e4 events4 where
    4: "ResetAnalogState engine_pressed_configuring = Inr (e4, events4)"
      "detected_by engine_pressed_configuring (ResetAxis pad_A 0) \<subseteq> set events4"
    by (metis (no_types, lifting))
  from 1 2 3 4 button hat axis show ?thesis by blast
qed

end
